(* ===== verification/Prelude.thy ===== *)
theory Prelude
  imports Complex_Main "HOL-Library.Multiset" "HOL-Library.Sublist"
begin

text \<open>
  Shared vocabulary of the development: the types that name the values of the
  program (prices, timestamps), the collections of lemmas that the component
  theories feed their equations into, and generic facts on lists, counting and
  JavaScript's integer-valued arithmetic (\<open>Math.ceil\<close> of a quotient) that
  several components use.
\<close>

section \<open>Types of the model\<close>

text \<open>
  A price is a JavaScript number read from the database. The model keeps it as an
  exact rational: the decimal literals of the data set and of a search text are
  compared for equality and against integer bucket bounds, which rationals decide
  exactly (rounding to binary64 is not modelled).
  A date is a JavaScript \<open>Date\<close>: milliseconds since 1970-01-01T00:00:00Z.
\<close>

type_synonym price = rat
type_synonym millis = int

named_theorems handler_simps
  "equations that evaluate the request handlers on concrete stores"

section \<open>Counting with filters\<close>

lemma length_filter_conj_split:
  "length (filter P xs) =
     length (filter (\<lambda>x. P x \<and> Q x) xs) + length (filter (\<lambda>x. P x \<and> \<not> Q x) xs)"
  by (induction xs) auto

lemma length_filter_interval_join:
  fixes f :: "'a \<Rightarrow> 'b::linorder"
  assumes "a \<le> b" "b \<le> c"
  shows "length (filter (\<lambda>x. a \<le> f x \<and> f x < b) xs) + length (filter (\<lambda>x. b \<le> f x \<and> f x < c) xs) =
         length (filter (\<lambda>x. a \<le> f x \<and> f x < c) xs)"
  using assms by (induction xs) auto

lemma length_filter_interval_join_above:
  fixes f :: "'a \<Rightarrow> 'b::linorder"
  assumes "a \<le> b"
  shows "length (filter (\<lambda>x. a \<le> f x \<and> f x < b) xs) + length (filter (\<lambda>x. b \<le> f x) xs) =
         length (filter (\<lambda>x. a \<le> f x) xs)"
  using assms by (induction xs) auto

lemma sum_list_map_filter_empty:
  "filter P xs = [] \<Longrightarrow> sum_list (map f (filter P xs)) = 0"
  by simp

lemma count_list_filter_length:
  "count_list (map f xs) k = length (filter (\<lambda>x. f x = k) xs)"
  by (induction xs) auto

text \<open>Double counting: the counts of several filters add up over the elements.\<close>

lemma sum_list_length_filter_swap:
  "sum_list (map (\<lambda>b. length (filter (P b) xs)) bs) =
   sum_list (map (\<lambda>x. length (filter (\<lambda>b. P b x) bs)) xs)"
proof (induction xs)
  case Nil
  then show ?case by (induction bs) simp_all
next
  case (Cons x xs)
  have "sum_list (map (\<lambda>b. length (filter (P b) (x # xs))) bs) =
        length (filter (\<lambda>b. P b x) bs) + sum_list (map (\<lambda>b. length (filter (P b) xs)) bs)"
    by (induction bs) simp_all
  with Cons show ?case by simp
qed

lemma sum_list_indicator_length:
  "(\<And>x. x \<in> set xs \<Longrightarrow> f x = (if P x then 1 else 0)) \<Longrightarrow>
     sum_list (map f xs) = length (filter P xs)"
  by (induction xs) simp_all

text \<open>Consecutive windows of width \<open>k\<close> cover a prefix.\<close>

lemma concat_pages:
  "concat (map (\<lambda>i. take k (drop (i * k) xs)) [0..<K]) = take (K * k) xs"
proof (induction K)
  case (Suc K)
  have "take (K * k) xs @ take k (drop (K * k) xs) = take (K * k + k) xs"
    by (simp add: take_add)
  with Suc show ?case by (simp add: add.commute)
qed simp

lemma subseq_take_prefix: "subseq (take n xs) xs"
  by (rule prefix_imp_subseq) (rule take_is_prefix)

lemma subseq_drop_suffix: "subseq (drop n xs) xs"
  by (rule suffix_imp_subseq) (rule suffix_drop)

section \<open>Integer division rounded up\<close>

text \<open>
  JavaScript computes \<open>Math.ceil(n / p)\<close> on numbers. For integers \<open>n\<close> and
  \<open>p \<noteq> 0\<close> the quotient is exact in the model, and its ceiling is an integer
  division rounded up.
\<close>

lemma ceiling_of_int_divide:
  "\<lceil>(of_int n / of_int p :: rat)\<rceil> = - ((- n) div p)"
proof -
  have "\<lceil>(of_int n / of_int p :: rat)\<rceil> = - \<lfloor>of_int (- n) / of_int p :: rat\<rfloor>"
    by (simp add: ceiling_def)
  also have "\<dots> = - ((- n) div p)"
    by (simp only: floor_divide_of_int_eq)
  finally show ?thesis .
qed

lemma ceil_div_covers:
  assumes "0 < k"
  shows "n \<le> nat ((int n + int k - 1) div int k) * k"
proof -
  define q where "q = (int n + int k - 1) div int k"
  have "int n + int k - 1 = q * int k + (int n + int k - 1) mod int k" by (simp add: q_def)
  moreover have "(int n + int k - 1) mod int k < int k" using assms by simp
  ultimately have le: "int n \<le> q * int k" by linarith
  have "0 \<le> q" using assms by (simp add: q_def pos_imp_zdiv_nonneg_iff)
  with le have "int n \<le> int (nat q * k)" by simp
  then show ?thesis by (simp only: of_nat_le_iff q_def)
qed

lemma div_eq_by_decomposition:
  assumes p: "0 < (p::int)" and e: "m = q * p + s" and s: "0 \<le> s" "s < p"
  shows "m div p = q"
proof -
  have "m div p = (q * p + s) div p" by (simp only: e)
  also have "\<dots> = q + s div p" using p by (intro div_mult_self3) simp
  also have "s div p = 0" using s by simp
  finally show ?thesis by simp
qed

lemma mod_eq_by_decomposition:
  assumes p: "0 < (p::int)" and e: "m = q * p + s" and s: "0 \<le> s" "s < p"
  shows "m mod p = s"
proof -
  have "m div p = q" by (rule div_eq_by_decomposition [OF p e s])
  then show ?thesis using e by (simp add: minus_div_mult_eq_mod [symmetric])
qed

lemma div_step_int:
  assumes k: "0 < (k::int)"
  shows "(x + 1) div k = x div k + (if k dvd (x + 1) then 1 else 0)"
proof (cases "k dvd (x + 1)")
  case True
  have "x = ((x + 1) div k - 1) * k + (k - 1)"
    using True by (simp add: algebra_simps dvd_imp_mod_0)
  then have "x div k = (x + 1) div k - 1"
    by (rule div_eq_by_decomposition [OF k]) (use k in simp_all)
  with True show ?thesis by simp
next
  case False
  then have m: "0 < (x + 1) mod k" using k
    by (simp add: dvd_eq_mod_eq_0 order_less_le)
  have "x = ((x + 1) div k) * k + ((x + 1) mod k - 1)"
    by (simp add: algebra_simps)
  then have "x div k = (x + 1) div k"
    by (rule div_eq_by_decomposition [OF k]) (use k m pos_mod_bound [OF k, of "x + 1"] in simp_all)
  with False show ?thesis by simp
qed

lemma div_shift_int: "0 < (k::int) \<Longrightarrow> (x + c * k) div k = x div k + c"
  by simp

lemma neg_div_neg_round_up:
  assumes p: "0 < (p::int)"
  shows "- ((- n) div p) = (n + p - 1) div p"
proof -
  define q r where "q = n div p" and "r = n mod p"
  have n: "n = q * p + r" by (simp add: q_def r_def)
  have r: "0 \<le> r" "r < p" using p by (simp_all add: r_def)
  show ?thesis
  proof (cases "r = 0")
    case True
    have "(- n) div p = - q"
      by (rule div_eq_by_decomposition [OF p, of _ _ 0]) (use n True p in simp_all)
    moreover have "(n + p - 1) div p = q"
      by (rule div_eq_by_decomposition [OF p, of _ _ "p - 1"]) (use n True p in simp_all)
    ultimately show ?thesis by simp
  next
    case False
    have "(- n) div p = - q - 1"
      by (rule div_eq_by_decomposition [OF p, of _ _ "p - r"])
        (use n False r in \<open>simp_all add: algebra_simps\<close>)
    moreover have "(n + p - 1) div p = q + 1"
      by (rule div_eq_by_decomposition [OF p, of _ _ "r - 1"])
        (use n False r in \<open>simp_all add: algebra_simps\<close>)
    ultimately show ?thesis by simp
  qed
qed

lemma ceiling_divide_pos:
  "0 < p \<Longrightarrow> \<lceil>(of_int n / of_int p :: rat)\<rceil> = (n + p - 1) div p"
  by (simp only: ceiling_of_int_divide neg_div_neg_round_up)

end
