(* ===== verification/Calendar.thy ===== *)
theory Calendar
  imports Prelude
begin

text \<open>
  The proleptic Gregorian calendar in UTC, as MongoDB's \<open>$month\<close> operator
  reads a stored \<open>Date\<close> (\<open>src/Backend/server.js\<close>, \<open>buildDateQuery\<close>:
  \<open>{ $month: "$dateOfSale" }\<close>). A date is a count of milliseconds since the
  epoch; \<open>civil_of_days\<close> turns a day number into year, month and day by counting
  whole 400-year eras of 146097 days, then whole years, then whole months.
  The theory proves that the month is always between 1 and 12 and that the
  conversion inverts \<open>days_of_civil\<close>, so that a date in a given month is read as
  that month whatever its year.
\<close>

section \<open>Years and months\<close>

definition is_leap_year :: "int \<Rightarrow> bool" where
  "is_leap_year y \<longleftrightarrow> 4 dvd y \<and> (\<not> 100 dvd y \<or> 400 dvd y)"

definition days_in_year :: "int \<Rightarrow> int" where
  "days_in_year y = (if is_leap_year y then 366 else 365)"

definition days_in_month :: "int \<Rightarrow> nat \<Rightarrow> int" where
  "days_in_month y m =
     (if m = 2 then (if is_leap_year y then 29 else 28)
      else if m = 4 \<or> m = 6 \<or> m = 9 \<or> m = 11 then 30 else 31)"

definition ms_per_day :: int where
  "ms_per_day = 86400000"

definition days_per_era :: int where
  "days_per_era = 146097"

section \<open>From a day number to a civil date\<close>

text \<open>
  \<open>year_of_day y r\<close>: day \<open>r \<ge> 0\<close> counted from the first of January of year
  \<open>y\<close>; the loop steps over whole years. \<open>month_of_day y m r\<close>: day \<open>r\<close>
  counted from the first of month \<open>m\<close> of year \<open>y\<close>; the loop steps over whole
  months and stops at December.
\<close>

function year_of_day :: "int \<Rightarrow> int \<Rightarrow> int \<times> int" where
  "year_of_day y r =
     (if r < days_in_year y then (y, r) else year_of_day (y + 1) (r - days_in_year y))"
  by pat_completeness auto
termination
  by (relation "measure (\<lambda>(y, r). nat r)") (auto simp: days_in_year_def split: if_splits)

function month_of_day :: "int \<Rightarrow> nat \<Rightarrow> int \<Rightarrow> nat \<times> int" where
  "month_of_day y m r =
     (if 12 \<le> m \<or> r < days_in_month y m then (m, r)
      else month_of_day y (Suc m) (r - days_in_month y m))"
  by pat_completeness auto
termination
  by (relation "measure (\<lambda>(y, m, r). 12 - m)") auto

declare year_of_day.simps [simp del] month_of_day.simps [simp del]

definition civil_of_days :: "int \<Rightarrow> int \<times> nat \<times> int" where
  "civil_of_days d =
     (let (y, r) = year_of_day (1970 + 400 * (d div days_per_era)) (d mod days_per_era);
          (m, r') = month_of_day y 1 r
      in (y, m, r' + 1))"

text \<open>MongoDB's \<open>$month\<close> of a \<open>Date\<close>: the month (1 to 12) of its UTC day.\<close>

definition utc_month :: "millis \<Rightarrow> nat" where
  "utc_month t = fst (snd (civil_of_days (t div ms_per_day)))"

text \<open>
  The inverse direction, from a civil date to a day number, is written in closed
  form: the days of the whole years since 1970 (365 each, plus the leap days
  counted by \<open>leaps_through\<close>), the days of the whole months of the year, and the
  day of the month.
\<close>

definition leaps_through :: "int \<Rightarrow> int" where
  "leaps_through x = x div 4 - x div 100 + x div 400"

definition days_before_year :: "int \<Rightarrow> int" where
  "days_before_year y = 365 * (y - 1970) + leaps_through (y - 1) - leaps_through 1969"

definition days_before_month :: "int \<Rightarrow> nat \<Rightarrow> int" where
  "days_before_month y m = sum_list (map (days_in_month y) [1..<m])"

definition days_of_civil :: "int \<Rightarrow> nat \<Rightarrow> int \<Rightarrow> int" where
  "days_of_civil y m d = days_before_year y + days_before_month y m + (d - 1)"

definition valid_civil :: "int \<Rightarrow> nat \<Rightarrow> int \<Rightarrow> bool" where
  "valid_civil y m d \<longleftrightarrow> 1 \<le> m \<and> m \<le> 12 \<and> 1 \<le> d \<and> d \<le> days_in_month y m"

definition millis_of_civil :: "int \<Rightarrow> nat \<Rightarrow> int \<Rightarrow> int \<Rightarrow> millis" where
  "millis_of_civil y m d t = days_of_civil y m d * ms_per_day + t"

section \<open>The month is between 1 and 12\<close>

lemma month_of_day_range:
  "1 \<le> m \<Longrightarrow> m \<le> 12 \<Longrightarrow> m \<le> fst (month_of_day y m r) \<and> fst (month_of_day y m r) \<le> 12"
proof (induction y m r rule: month_of_day.induct)
  case (1 y m r)
  show ?case
  proof (cases "12 \<le> m \<or> r < days_in_month y m")
    case True
    with "1.prems" show ?thesis by (simp add: month_of_day.simps [of y m r])
  next
    case False
    with "1.IH" "1.prems" have "Suc m \<le> fst (month_of_day y (Suc m) (r - days_in_month y m)) \<and>
        fst (month_of_day y (Suc m) (r - days_in_month y m)) \<le> 12"
      by simp
    with False show ?thesis by (simp add: month_of_day.simps [of y m r])
  qed
qed

lemma utc_month_range: "1 \<le> utc_month t \<and> utc_month t \<le> 12"
proof -
  obtain y r where yr: "year_of_day (1970 + 400 * (t div ms_per_day div days_per_era))
      (t div ms_per_day mod days_per_era) = (y, r)"
    by fastforce
  obtain m r' where mr: "month_of_day y (Suc 0) r = (m, r')"
    by fastforce
  have "1 \<le> m \<and> m \<le> 12"
    using month_of_day_range [of "Suc 0" y r] mr by simp
  then show ?thesis
    using yr mr by (simp add: utc_month_def civil_of_days_def)
qed

section \<open>Day numbers and civil dates are inverse\<close>

lemma leaps_through_step:
  "leaps_through y = leaps_through (y - 1) + (if is_leap_year y then 1 else 0)"
proof -
  have s: "\<And>k. 0 < k \<Longrightarrow> y div k = (y - 1) div k + (if k dvd y then 1 else 0)"
    using div_step_int [of _ "y - 1"] by simp
  have d: "400 dvd y \<Longrightarrow> 100 dvd y" "100 dvd y \<Longrightarrow> 4 dvd y"
    by (auto elim: dvd_trans [rotated])
  have s4: "y div 4 = (y - 1) div 4 + (if 4 dvd y then 1 else 0)" by (rule s) simp
  have s100: "y div 100 = (y - 1) div 100 + (if 100 dvd y then 1 else 0)" by (rule s) simp
  have s400: "y div 400 = (y - 1) div 400 + (if 400 dvd y then 1 else 0)" by (rule s) simp
  consider "\<not> 4 dvd y" | "4 dvd y" "\<not> 100 dvd y" | "100 dvd y" "\<not> 400 dvd y" | "400 dvd y"
    by blast
  then show ?thesis
  proof cases
    case 1
    with d have "\<not> 100 dvd y" "\<not> 400 dvd y" by blast+
    with 1 s4 s100 s400 show ?thesis by (simp add: leaps_through_def is_leap_year_def)
  next
    case 2
    with d have "\<not> 400 dvd y" by blast
    with 2 s4 s100 s400 show ?thesis by (simp add: leaps_through_def is_leap_year_def)
  next
    case 3
    with d have "4 dvd y" by blast
    with 3 s4 s100 s400 show ?thesis by (simp add: leaps_through_def is_leap_year_def)
  next
    case 4
    with d have "4 dvd y" "100 dvd y" by blast+
    with 4 s4 s100 s400 show ?thesis by (simp add: leaps_through_def is_leap_year_def)
  qed
qed

lemma leaps_through_era: "leaps_through (x + 400) = leaps_through x + 97"
proof -
  have "(x + 100 * 4) div 4 = x div 4 + 100" by (rule div_shift_int) simp
  moreover have "(x + 4 * 100) div 100 = x div 100 + 4" by (rule div_shift_int) simp
  moreover have "(x + 1 * 400) div 400 = x div 400 + 1" by (rule div_shift_int) simp
  ultimately show ?thesis by (simp add: leaps_through_def)
qed

lemma days_before_year_succ:
  "days_before_year (y + 1) = days_before_year y + days_in_year y"
  using leaps_through_step [of y]
  by (simp add: days_before_year_def days_in_year_def)

lemma days_before_year_era: "days_before_year (y + 400) = days_before_year y + days_per_era"
  using leaps_through_era [of "y - 1"]
  by (simp add: days_before_year_def days_per_era_def algebra_simps)

lemma days_in_year_pos: "0 < days_in_year y"
  by (simp add: days_in_year_def)

lemma days_before_year_mono_nat: "days_before_year y \<le> days_before_year (y + int k)"
proof (induction k)
  case 0
  then show ?case by simp
next
  case (Suc k)
  have "y + int (Suc k) = (y + int k) + 1" by simp
  then have "days_before_year (y + int (Suc k)) = days_before_year (y + int k) + days_in_year (y + int k)"
    by (simp only: days_before_year_succ)
  with Suc.IH days_in_year_pos [of "y + int k"] show ?case by simp
qed

lemma days_before_year_mono: "a \<le> b \<Longrightarrow> days_before_year a \<le> days_before_year b"
  using days_before_year_mono_nat [of a "nat (b - a)"] by simp

lemma days_before_year_eras_nat: "days_before_year (y + 400 * int k) = days_before_year y + int k * days_per_era"
proof (induction k)
  case 0
  then show ?case by simp
next
  case (Suc k)
  have "y + 400 * int (Suc k) = (y + 400 * int k) + 400" by simp
  then show ?case using Suc.IH days_before_year_era [of "y + 400 * int k"]
    by (simp add: algebra_simps)
qed

lemma days_before_year_eras: "days_before_year (y + 400 * e) = days_before_year y + e * days_per_era"
proof (cases "0 \<le> e")
  case True
  then show ?thesis using days_before_year_eras_nat [of y "nat e"] by simp
next
  case False
  define k where "k = nat (- e)"
  have e: "e = - int k" using False by (simp add: k_def)
  have "days_before_year ((y + 400 * e) + 400 * int k) = days_before_year (y + 400 * e) + int k * days_per_era"
    by (rule days_before_year_eras_nat)
  then show ?thesis by (simp add: e algebra_simps)
qed

lemma year_of_day_from:
  "y0 \<le> y \<Longrightarrow> 0 \<le> t \<Longrightarrow> t < days_in_year y \<Longrightarrow>
     year_of_day y0 (days_before_year y - days_before_year y0 + t) = (y, t)"
proof (induction "nat (y - y0)" arbitrary: y0)
  case 0
  then have "y0 = y" by simp
  with "0.prems" show ?case by (simp add: year_of_day.simps)
next
  case (Suc n)
  then have lt: "y0 + 1 \<le> y" and n: "n = nat (y - (y0 + 1))" by simp_all
  have step: "days_before_year (y0 + 1) = days_before_year y0 + days_in_year y0"
    by (rule days_before_year_succ)
  have "days_before_year (y0 + 1) \<le> days_before_year y"
    using lt by (rule days_before_year_mono)
  then have ge: "\<not> days_before_year y - days_before_year y0 + t < days_in_year y0"
    using step Suc.prems(2) by simp
  have "year_of_day (y0 + 1) (days_before_year y - days_before_year (y0 + 1) + t) = (y, t)"
    using Suc.hyps(1) [OF n lt] Suc.prems(2,3) by simp
  with ge step show ?case by (simp add: year_of_day.simps [of y0] algebra_simps)
qed

lemma days_in_month_pos: "0 < days_in_month y m"
  by (simp add: days_in_month_def)

lemma days_before_month_succ:
  "1 \<le> m \<Longrightarrow> days_before_month y (Suc m) = days_before_month y m + days_in_month y m"
  by (simp add: days_before_month_def)

lemma days_before_month_mono:
  "1 \<le> a \<Longrightarrow> a \<le> b \<Longrightarrow> days_before_month y a \<le> days_before_month y b"
proof (induction b)
  case 0
  then show ?case by simp
next
  case (Suc b)
  show ?case
  proof (cases "a = Suc b")
    case False
    with Suc.prems have "days_before_month y a \<le> days_before_month y b" by (intro Suc.IH) simp_all
    moreover have "days_before_month y b \<le> days_before_month y (Suc b)"
      using False Suc.prems days_before_month_succ [of b y] days_in_month_pos [of y b] by simp
    ultimately show ?thesis by simp
  qed simp
qed

lemma days_before_month_year: "days_before_month y 13 = days_in_year y"
  by (simp add: days_before_month_def days_in_month_def days_in_year_def upt_rec)

lemma month_within_year:
  "1 \<le> m \<Longrightarrow> m \<le> 12 \<Longrightarrow> days_before_month y m + days_in_month y m \<le> days_in_year y"
  using days_before_month_succ [of m y] days_before_month_mono [of "Suc m" 13 y]
  by (simp add: days_before_month_year)

lemma month_of_day_from:
  "1 \<le> m0 \<Longrightarrow> m0 \<le> m \<Longrightarrow> m \<le> 12 \<Longrightarrow> 0 \<le> t \<Longrightarrow> t < days_in_month y m \<Longrightarrow>
     month_of_day y m0 (days_before_month y m - days_before_month y m0 + t) = (m, t)"
proof (induction "m - m0" arbitrary: m0)
  case 0
  then have "m0 = m" by simp
  with "0.prems" show ?case by (simp add: month_of_day.simps)
next
  case (Suc n)
  then have lt: "Suc m0 \<le> m" and n: "n = m - Suc m0" and m0: "m0 < 12" by simp_all
  have step: "days_before_month y (Suc m0) = days_before_month y m0 + days_in_month y m0"
    using Suc.prems(1) by (rule days_before_month_succ)
  have "days_before_month y (Suc m0) \<le> days_before_month y m"
    using lt by (intro days_before_month_mono) simp_all
  then have ge: "\<not> days_before_month y m - days_before_month y m0 + t < days_in_month y m0"
    using step Suc.prems(4) by simp
  have "month_of_day y (Suc m0) (days_before_month y m - days_before_month y (Suc m0) + t) = (m, t)"
    using Suc.hyps(1) [OF n] lt Suc.prems(3-5) by simp
  with ge step m0 show ?case by (simp add: month_of_day.simps [of y m0] algebra_simps)
qed

lemma civil_of_days_inverse:
  assumes v: "valid_civil y m d"
  shows "civil_of_days (days_of_civil y m d) = (y, m, d)"
proof -
  from v have m: "1 \<le> m" "m \<le> 12" and dd: "1 \<le> d" "d \<le> days_in_month y m"
    by (simp_all add: valid_civil_def)
  define e where "e = (y - 1970) div 400"
  define y0 where "y0 = 1970 + 400 * e"
  have y0: "y0 \<le> y" "y < y0 + 400"
    unfolding y0_def e_def by linarith+
  define doy where "doy = days_before_month y m + (d - 1)"
  have doy: "0 \<le> doy" "doy < days_in_year y"
    using days_before_month_mono [of 1 m y] month_within_year [OF m, of y] m dd
    by (simp_all add: doy_def days_before_month_def)
  define r where "r = days_before_year y - days_before_year y0 + doy"
  have era0: "days_before_year y0 = e * days_per_era"
    using days_before_year_eras [of 1970 e] by (simp add: y0_def days_before_year_def)
  have D: "days_of_civil y m d = e * days_per_era + r"
    by (simp add: days_of_civil_def r_def doy_def era0 algebra_simps)
  have r0: "0 \<le> r"
    using days_before_year_mono [OF y0(1)] doy by (simp add: r_def)
  have "days_before_year (y + 1) \<le> days_before_year (y0 + 400)"
    using y0 by (intro days_before_year_mono) simp
  then have r1: "r < days_per_era"
    using days_before_year_succ [of y] days_before_year_era [of y0] doy by (simp add: r_def)
  have era_pos: "0 < days_per_era" by (simp add: days_per_era_def)
  have q: "days_of_civil y m d div days_per_era = e"
    by (rule div_eq_by_decomposition [OF era_pos D r0 r1])
  have rm: "days_of_civil y m d mod days_per_era = r"
    by (rule mod_eq_by_decomposition [OF era_pos D r0 r1])
  have yl: "year_of_day y0 r = (y, doy)"
    unfolding r_def using y0(1) doy by (rule year_of_day_from)
  have "month_of_day y 1 (days_before_month y m - days_before_month y 1 + (d - 1)) = (m, d - 1)"
    using m dd by (intro month_of_day_from) simp_all
  then have ml: "month_of_day y 1 doy = (m, d - 1)"
    by (simp add: doy_def days_before_month_def)
  then have "month_of_day y (Suc 0) doy = (m, d - 1)" by simp
  then show ?thesis
    by (simp add: civil_of_days_def q rm y0_def [symmetric] yl)
qed

lemma utc_month_millis_of_civil:
  assumes "valid_civil y m d" and "0 \<le> t" and "t < ms_per_day"
  shows "utc_month (millis_of_civil y m d t) = m"
proof -
  have "0 < ms_per_day" by (simp add: ms_per_day_def)
  then have "millis_of_civil y m d t div ms_per_day = days_of_civil y m d"
    using assms(2,3) by (intro div_eq_by_decomposition) (simp_all add: millis_of_civil_def)
  then show ?thesis
    by (simp add: utc_month_def civil_of_days_inverse [OF assms(1)])
qed

lemma utc_month_of_civil:
  assumes "valid_civil y m d" and "0 \<le> t" and "t < ms_per_day"
  shows "utc_month (millis_of_civil y m d t) = m"
  by (rule utc_month_millis_of_civil [OF assms])

lemma civil_of_days_of_civil:
  "valid_civil y m d \<Longrightarrow> civil_of_days (days_of_civil y m d) = (y, m, d)"
  by (rule civil_of_days_inverse)


lemma utc_month_bounds: "1 \<le> utc_month t \<and> utc_month t \<le> 12"
  by (rule utc_month_range)

end
