(* ===== verification/Regex.thy ===== *)
theory Regex
  imports Prelude
begin

text \<open>
  The regular expressions that MongoDB evaluates for \<open>{ $regex: searchText,
  $options: 'i' }\<close> (\<open>src/Backend/server.js\<close>, handler of \<open>GET /transactions\<close>):
  the search text typed by the user is passed as a pattern, not as a literal.
  This theory holds the abstract syntax \<open>re\<close> of the modelled fragment of PCRE
  (literals, \<open>.\<close>, character classes given as lists of ranges, \<open>^\<close>, \<open>$\<close>,
  the end of the subject, word boundaries, concatenation, alternation and
  iteration), its declarative semantics \<open>sem\<close>
  (which segments of a subject a pattern matches, with the caseless comparison of
  the \<open>i\<close> option, \<open>.\<close> not matching a newline, \<open>$\<close> matching at the end or
  before a final newline), the unanchored search \<open>rx_matches\<close>, and a
  backtracking matcher \<open>mt\<close> with its search \<open>rx_search\<close>, proved equal to the
  semantics. The pattern compiler is in \<open>RegexParse\<close>.
  Characters are single bytes; case folding is ASCII folding.
\<close>

section \<open>Definitions\<close>

datatype re = Epsilon | Lit char | AnyChar | Bol | Eol | Seq re re | Alt re re | Star re
  | Cls bool "(char \<times> char) list" | Wordb bool | Eos

definition lower_char :: "char \<Rightarrow> char" where
  "lower_char c = (let n = (of_char c :: nat) in if 65 \<le> n \<and> n \<le> 90 then char_of (n + 32) else c)"

definition upper_char :: "char \<Rightarrow> char" where
  "upper_char c = (let n = (of_char c :: nat) in if 97 \<le> n \<and> n \<le> 122 then char_of (n - 32) else c)"

text \<open>
  A bracket expression \<open>[...]\<close> (\<open>Cls True\<close> when negated by \<open>^\<close>): a list of
  ranges of character codes. Under the \<open>i\<close> option PCRE accepts a character when it
  or its other case lies in the class.
\<close>

definition in_range :: "char \<Rightarrow> char \<Rightarrow> char \<Rightarrow> bool" where
  "in_range a b x \<longleftrightarrow> (of_char a :: nat) \<le> of_char x \<and> (of_char x :: nat) \<le> of_char b"

definition cls_match :: "bool \<Rightarrow> (char \<times> char) list \<Rightarrow> char \<Rightarrow> bool" where
  "cls_match neg rs x \<longleftrightarrow>
     neg \<noteq> list_ex (\<lambda>(a, b). in_range a b x \<or> in_range a b (lower_char x) \<or> in_range a b (upper_char x)) rs"

text \<open>
  The word characters of \<open>\b\<close> and \<open>\B\<close> (PCRE's default tables: ASCII letters,
  digits and the underscore); \<open>Wordb True\<close> is a word boundary, \<open>Wordb False\<close>
  its negation, \<open>Eos\<close> the very end of the subject (\<open>\z\<close>).
\<close>

definition word_char :: "char \<Rightarrow> bool" where
  "word_char c \<longleftrightarrow>
     (let n = (of_char c :: nat) in (48 \<le> n \<and> n \<le> 57) \<or> (65 \<le> n \<and> n \<le> 90) \<or> n = 95 \<or> (97 \<le> n \<and> n \<le> 122))"

definition word_before :: "string \<Rightarrow> bool" where
  "word_before pre \<longleftrightarrow> pre \<noteq> [] \<and> word_char (last pre)"

definition word_after :: "string \<Rightarrow> bool" where
  "word_after post \<longleftrightarrow> post \<noteq> [] \<and> word_char (hd post)"

definition newline :: char where
  "newline = char_of (10::nat)"

inductive sem :: "re \<Rightarrow> string \<Rightarrow> string \<Rightarrow> string \<Rightarrow> bool" where
  sem_eps: "sem Epsilon pre [] post"
| sem_lit: "lower_char c = lower_char x \<Longrightarrow> sem (Lit c) pre [x] post"
| sem_any: "x \<noteq> newline \<Longrightarrow> sem AnyChar pre [x] post"
| sem_bol: "sem Bol [] [] post"
| sem_eol: "post = [] \<or> post = [newline] \<Longrightarrow> sem Eol pre [] post"
| sem_seq: "sem a pre u (v @ post) \<Longrightarrow> sem b (pre @ u) v post \<Longrightarrow> sem (Seq a b) pre (u @ v) post"
| sem_alt1: "sem a pre w post \<Longrightarrow> sem (Alt a b) pre w post"
| sem_alt2: "sem b pre w post \<Longrightarrow> sem (Alt a b) pre w post"
| sem_star0: "sem (Star r) pre [] post"
| sem_star: "sem r pre u (v @ post) \<Longrightarrow> sem (Star r) (pre @ u) v post \<Longrightarrow> sem (Star r) pre (u @ v) post"
| sem_cls: "cls_match neg rs x \<Longrightarrow> sem (Cls neg rs) pre [x] post"
| sem_wordb: "b = (word_before pre \<noteq> word_after post) \<Longrightarrow> sem (Wordb b) pre [] post"
| sem_eos: "sem Eos pre [] []"

definition rx_matches :: "re \<Rightarrow> string \<Rightarrow> bool" where
  "rx_matches r s \<longleftrightarrow> (\<exists>pre w post. s = pre @ w @ post \<and> sem r pre w post)"

text \<open>
  The matcher: \<open>mt subj r s\<close> lists the rests of the suffix \<open>s\<close> of the subject
  \<open>subj\<close> after a match of \<open>r\<close> at its start. The subject gives the text before
  the current position, which \<open>^\<close> and \<open>\b\<close> look at.
\<close>

function mt :: "string \<Rightarrow> re \<Rightarrow> string \<Rightarrow> string list" where
  "mt subj Epsilon s = [s]"
| "mt subj (Lit c) s = (case s of [] \<Rightarrow> [] | x # xs \<Rightarrow> if lower_char c = lower_char x then [xs] else [])"
| "mt subj AnyChar s = (case s of [] \<Rightarrow> [] | x # xs \<Rightarrow> if x \<noteq> newline then [xs] else [])"
| "mt subj Bol s = (if length s = length subj then [s] else [])"
| "mt subj Eol s = (if s = [] \<or> s = [newline] then [s] else [])"
| "mt subj (Seq a b) s = concat (map (mt subj b) (mt subj a s))"
| "mt subj (Alt a b) s = mt subj a s @ mt subj b s"
| "mt subj (Star r) s = s # concat (map (mt subj (Star r)) (filter (\<lambda>t. length t < length s) (mt subj r s)))"
| "mt subj (Cls neg rs) s = (case s of [] \<Rightarrow> [] | x # xs \<Rightarrow> if cls_match neg rs x then [xs] else [])"
| "mt subj (Wordb b) s =
     (if b = (word_before (take (length subj - length s) subj) \<noteq> word_after s) then [s] else [])"
| "mt subj Eos s = (if s = [] then [s] else [])"
  by pat_completeness auto
termination
  by (relation "measures [\<lambda>(subj, r, s). size r, \<lambda>(subj, r, s). length s]") auto

definition rx_search :: "re \<Rightarrow> string \<Rightarrow> bool" where
  "rx_search r s = list_ex (\<lambda>t. mt s r t \<noteq> []) (suffixes s)"

section \<open>Properties\<close>

declare mt.simps(8) [simp del]

lemma mt_sound:
  "t \<in> set (mt subj r s) \<Longrightarrow> pre @ s = subj \<Longrightarrow> \<exists>w. s = w @ t \<and> sem r pre w t"
proof (induction subj r s arbitrary: pre t rule: mt.induct)
  case (1 subj s)
  then show ?case by (auto intro: sem_eps)
next
  case (2 subj c s)
  then show ?case by (auto intro: sem_lit split: list.splits if_splits)
next
  case (3 subj s)
  then show ?case by (auto intro: sem_any split: list.splits if_splits)
next
  case (4 subj s)
  then show ?case by (auto intro: sem_bol split: if_splits)
next
  case (5 subj s)
  then show ?case by (auto intro: sem_eol split: if_splits)
next
  case (6 subj a b s)
  from "6.prems"(1) obtain s1 where s1: "s1 \<in> set (mt subj a s)" and t: "t \<in> set (mt subj b s1)"
    by auto
  from "6.IH"(1) [OF s1 "6.prems"(2)] obtain u where u: "s = u @ s1" and su: "sem a pre u s1"
    by blast
  have "(pre @ u) @ s1 = subj" using "6.prems"(2) u by simp
  from "6.IH"(2) [OF s1 t this] obtain v where v: "s1 = v @ t" and sv: "sem b (pre @ u) v t"
    by blast
  from su sv v have "sem (Seq a b) pre (u @ v) t" by (auto intro: sem_seq)
  with u v show ?case by auto
next
  case (7 subj a b s)
  from "7.prems"(1) consider "t \<in> set (mt subj a s)" | "t \<in> set (mt subj b s)" by auto
  then show ?case
  proof cases
    case 1
    from "7.IH"(1) [OF 1 "7.prems"(2)] show ?thesis by (blast intro: sem_alt1)
  next
    case 2
    from "7.IH"(2) [OF 2 "7.prems"(2)] show ?thesis by (blast intro: sem_alt2)
  qed
next
  case (8 subj r s)
  show ?case
  proof (cases "t = s")
    case True
    then show ?thesis by (auto intro: sem_star0)
  next
    case False
    with "8.prems"(1) [unfolded mt.simps(8) [of subj r s]] obtain s1 where s1: "s1 \<in> set (mt subj r s)"
        and short: "length s1 < length s" and t: "t \<in> set (mt subj (Star r) s1)"
      by auto
    from "8.IH"(1) [OF s1 "8.prems"(2)] obtain u where u: "s = u @ s1" and su: "sem r pre u s1"
      by blast
    have "(pre @ u) @ s1 = subj" using "8.prems"(2) u by simp
    from "8.IH"(2) [of s1, OF _ t this] s1 short obtain v where v: "s1 = v @ t"
        and sv: "sem (Star r) (pre @ u) v t"
      by auto
    from su sv v have "sem (Star r) pre (u @ v) t" by (auto intro: sem_star)
    with u v show ?thesis by auto
  qed
next
  case (9 subj neg rs s)
  then show ?case by (auto intro: sem_cls split: list.splits if_splits)
next
  case (10 subj b s)
  then have "take (length subj - length s) subj = pre" by auto
  with "10.prems" show ?case by (auto intro: sem_wordb split: if_splits)
next
  case (11 subj s)
  then show ?case by (auto intro: sem_eos split: if_splits)
qed

lemma mt_complete:
  "sem r pre w post \<Longrightarrow> post \<in> set (mt (pre @ w @ post) r (w @ post))"
proof (induction rule: sem.induct)
  case (sem_seq a pre u v post b)
  have "v @ post \<in> set (mt (pre @ u @ v @ post) a (u @ v @ post))"
    using sem_seq.IH(1) by simp
  moreover have "post \<in> set (mt (pre @ u @ v @ post) b (v @ post))"
    using sem_seq.IH(2) by simp
  ultimately show ?case by force
next
  case (sem_star r pre u v post)
  show ?case
  proof (cases "u = []")
    case True
    with sem_star.IH(2) show ?thesis by simp
  next
    case False
    then have short: "length (v @ post) < length (u @ v @ post)" by simp
    define N where "N = pre @ u @ v @ post"
    have "v @ post \<in> set (mt N r (u @ v @ post))"
      using sem_star.IH(1) by (simp add: N_def)
    then have mem: "v @ post \<in> set (filter (\<lambda>t. length t < length (u @ v @ post)) (mt N r (u @ v @ post)))"
      using short by simp
    have "post \<in> set (mt N (Star r) (v @ post))"
      using sem_star.IH(2) by (simp add: N_def)
    with mem have "post \<in> set (concat (map (mt N (Star r))
        (filter (\<lambda>t. length t < length (u @ v @ post)) (mt N r (u @ v @ post)))))"
      by (auto simp only: set_concat set_map intro!: UN_I imageI)
    then have "post \<in> set (mt N (Star r) (u @ v @ post))"
      by (subst mt.simps(8)) simp
    then show ?thesis by (simp add: N_def)
  qed
next
  case (sem_star0 r pre post)
  show ?case by (subst mt.simps(8)) simp
qed (auto simp: newline_def)

lemma rx_search_sem: "rx_search r s \<longleftrightarrow> rx_matches r s"
proof
  assume "rx_search r s"
  then obtain t where "t \<in> set (suffixes s)" and ne: "mt s r t \<noteq> []"
    unfolding rx_search_def list_ex_iff by blast
  then have suf: "suffix t s" by simp
  from ne obtain tt ts where "mt s r t = tt # ts"
    by (cases "mt s r t") simp_all
  then have tt: "tt \<in> set (mt s r t)" by simp
  from suf obtain pre where s: "s = pre @ t" unfolding suffix_def by blast
  from mt_sound [OF tt s [symmetric]] obtain w where w: "t = w @ tt" and sw: "sem r pre w tt" by blast
  from s w have "s = pre @ w @ tt" by simp
  with sw show "rx_matches r s" unfolding rx_matches_def by (intro exI conjI)
next
  assume "rx_matches r s"
  then obtain pre w post where s: "s = pre @ w @ post" and sm: "sem r pre w post"
    unfolding rx_matches_def by blast
  from mt_complete [OF sm] have "post \<in> set (mt s r (w @ post))" by (simp only: s)
  then have ne: "mt s r (w @ post) \<noteq> []" by (cases "mt s r (w @ post)") simp_all
  have "suffix (w @ post) s" unfolding suffix_def using s by (intro exI [of _ pre]) simp
  then have "w @ post \<in> set (suffixes s)" by simp
  with ne show "rx_search r s" unfolding rx_search_def list_ex_iff by blast
qed

inductive_cases sem_SeqE: "sem (Seq a b) pre w post"

inductive_cases sem_LitE: "sem (Lit c) pre w post"

inductive_cases sem_EpsE: "sem Epsilon pre w post"

lemma sem_literals:
  "sem (foldr Seq (map Lit p) Epsilon) pre w post \<longleftrightarrow> map lower_char w = map lower_char p"
proof (induction p arbitrary: pre w)
  case Nil
  show ?case by (auto intro: sem_eps elim: sem_EpsE)
next
  case (Cons c p)
  show ?case
  proof
    assume "sem (foldr Seq (map Lit (c # p)) Epsilon) pre w post"
    then obtain u v where w: "w = u @ v" and su: "sem (Lit c) pre u (v @ post)"
        and sv: "sem (foldr Seq (map Lit p) Epsilon) (pre @ u) v post"
      by (auto elim: sem_SeqE)
    from su obtain x where "u = [x]" and "lower_char c = lower_char x" by (auto elim: sem_LitE)
    with w sv Cons.IH show "map lower_char w = map lower_char (c # p)" by simp
  next
    assume m: "map lower_char w = map lower_char (c # p)"
    then obtain x v where w: "w = x # v" and x: "lower_char x = lower_char c"
        and v: "map lower_char v = map lower_char p"
      by (cases w) auto
    have "sem (Lit c) pre [x] (v @ post)" using x by (intro sem_lit) simp
    moreover have "sem (foldr Seq (map Lit p) Epsilon) (pre @ [x]) v post" using v Cons.IH by simp
    ultimately have "sem (Seq (Lit c) (foldr Seq (map Lit p) Epsilon)) pre ([x] @ v) post"
      by (rule sem_seq)
    with w show "sem (foldr Seq (map Lit (c # p)) Epsilon) pre w post" by simp
  qed
qed

lemma sublist_map_iff:
  "sublist (map f p) (map f s) \<longleftrightarrow> (\<exists>pre w post. s = pre @ w @ post \<and> map f w = map f p)"
proof
  assume "sublist (map f p) (map f s)"
  then obtain ps ss where "map f s = ps @ map f p @ ss" unfolding sublist_def by blast
  from this [unfolded map_eq_append_conv] obtain us vs where s: "s = us @ vs"
      and vs: "map f p @ ss = map f vs"
    by blast
  from vs [symmetric, unfolded map_eq_append_conv] obtain ws xs where ws: "vs = ws @ xs"
      and m: "map f p = map f ws"
    by blast
  from s ws have "s = us @ ws @ xs" by simp
  with m show "\<exists>pre w post. s = pre @ w @ post \<and> map f w = map f p"
    by (intro exI [of _ us] exI [of _ ws] exI [of _ xs]) simp
next
  assume "\<exists>pre w post. s = pre @ w @ post \<and> map f w = map f p"
  then obtain pre w post where "s = pre @ w @ post" and "map f w = map f p" by blast
  then have "map f s = map f pre @ map f p @ map f post" by simp
  then show "sublist (map f p) (map f s)" unfolding sublist_def by blast
qed

lemma in_range_single: "in_range c c x \<longleftrightarrow> x = c"
  by (auto simp: in_range_def)

lemma case_fold_eq: "(x = c \<or> lower_char x = c \<or> upper_char x = c) \<longleftrightarrow> lower_char c = lower_char x"
proof -
  have inj: "\<And>a b :: char. a = b \<longleftrightarrow> (of_char a :: nat) = of_char b" by simp
  have lt: "(of_char x :: nat) < 256" "(of_char c :: nat) < 256" by simp_all
  show ?thesis
    unfolding lower_char_def upper_char_def Let_def inj
    using lt by (auto split: if_splits)
qed


lemma rx_search_single:
  "rx_search (Seq (Cls neg rs) Epsilon) s \<longleftrightarrow> list_ex (cls_match neg rs) s"
proof -
  have semeq: "sem (Seq (Cls neg rs) Epsilon) pre w post \<longleftrightarrow> (\<exists>x. w = [x] \<and> cls_match neg rs x)" for pre w post
  proof
    assume "sem (Seq (Cls neg rs) Epsilon) pre w post"
    then show "\<exists>x. w = [x] \<and> cls_match neg rs x"
      by (auto elim!: sem.cases)
  next
    assume "\<exists>x. w = [x] \<and> cls_match neg rs x"
    then obtain x where "w = [x]" "cls_match neg rs x" by blast
    then show "sem (Seq (Cls neg rs) Epsilon) pre w post"
      using sem_seq [of "Cls neg rs" pre "[x]" "[]" post Epsilon] by (auto intro: sem_cls sem_eps)
  qed
  show ?thesis
    unfolding rx_search_sem rx_matches_def list_ex_iff
  proof (intro iffI)
    assume "\<exists>pre w post. s = pre @ w @ post \<and> sem (Seq (Cls neg rs) Epsilon) pre w post"
    then obtain pre w post where "s = pre @ w @ post" "sem (Seq (Cls neg rs) Epsilon) pre w post" by blast
    then show "\<exists>x\<in>set s. cls_match neg rs x" using semeq by auto
  next
    assume "\<exists>x\<in>set s. cls_match neg rs x"
    then obtain x pre post where "s = pre @ x # post" "cls_match neg rs x"
      by (auto simp: in_set_conv_decomp)
    then show "\<exists>pre w post. s = pre @ w @ post \<and> sem (Seq (Cls neg rs) Epsilon) pre w post"
      using semeq by (intro exI [of _ pre] exI [of _ "[x]"] exI [of _ post]) simp
  qed
qed

lemma sem_seq_epsilon: "sem (Seq a Epsilon) pre w post \<longleftrightarrow> sem a pre w post"
proof
  assume "sem (Seq a Epsilon) pre w post"
  then show "sem a pre w post" by (auto elim!: sem_SeqE sem_EpsE)
next
  assume "sem a pre w post"
  then show "sem (Seq a Epsilon) pre w post"
    using sem_seq [of a pre w "[]" post Epsilon] by (simp add: sem_eps)
qed

lemma sem_foldr_tail_prefix:
  "sem (foldr Seq xs t) pre w post \<Longrightarrow> \<exists>u v. w = u @ v \<and> sem (foldr Seq xs Epsilon) pre u (v @ post)"
proof (induction xs arbitrary: pre w)
  case Nil
  then show ?case by (intro exI [of _ "[]"] exI [of _ w]) (simp add: sem_eps)
next
  case (Cons x xs)
  from Cons.prems obtain u1 v1 where w: "w = u1 @ v1" and sx: "sem x pre u1 (v1 @ post)"
      and sr: "sem (foldr Seq xs t) (pre @ u1) v1 post"
    by (auto elim: sem_SeqE)
  from Cons.IH [OF sr] obtain u2 v2 where v1: "v1 = u2 @ v2"
      and s2: "sem (foldr Seq xs Epsilon) (pre @ u1) u2 (v2 @ post)"
    by blast
  have "sem (Seq x (foldr Seq xs Epsilon)) pre (u1 @ u2) (v2 @ post)"
    using sx v1 s2 by (intro sem_seq) simp_all
  with w v1 show ?case by (intro exI [of _ "u1 @ u2"] exI [of _ v2]) simp
qed

lemma sem_foldr_tail_extend:
  assumes "\<And>pre post. sem t pre [] post"
  shows "sem (foldr Seq xs Epsilon) pre w post \<Longrightarrow> sem (foldr Seq xs t) pre w post"
proof (induction xs arbitrary: pre w)
  case Nil
  then show ?case using assms by (auto elim: sem_EpsE)
next
  case (Cons x xs)
  from Cons.prems obtain u v where w: "w = u @ v" and sx: "sem x pre u (v @ post)"
      and sr: "sem (foldr Seq xs Epsilon) (pre @ u) v post"
    by (auto elim: sem_SeqE)
  show ?case using sx Cons.IH [OF sr] w by (auto intro: sem_seq)
qed

lemma rx_matches_empty_tail:
  assumes "\<And>pre post. sem t pre [] post"
  shows "rx_matches (Seq (foldr Seq xs t) Epsilon) s \<longleftrightarrow> rx_matches (foldr Seq xs Epsilon) s"
proof
  assume "rx_matches (Seq (foldr Seq xs t) Epsilon) s"
  then obtain pre w post where s: "s = pre @ w @ post" and sm: "sem (foldr Seq xs t) pre w post"
    unfolding rx_matches_def sem_seq_epsilon by blast
  from sem_foldr_tail_prefix [OF sm] obtain u v where "w = u @ v" "sem (foldr Seq xs Epsilon) pre u (v @ post)"
    by blast
  with s show "rx_matches (foldr Seq xs Epsilon) s"
    unfolding rx_matches_def by (intro exI [of _ pre] exI [of _ u] exI [of _ "v @ post"]) simp
next
  assume "rx_matches (foldr Seq xs Epsilon) s"
  then show "rx_matches (Seq (foldr Seq xs t) Epsilon) s"
    unfolding rx_matches_def sem_seq_epsilon using sem_foldr_tail_extend [OF assms] by blast
qed

lemma sem_optional_copies: "sem (foldr Seq (replicate k (Alt r Epsilon)) Epsilon) pre [] post"
proof (induction k arbitrary: pre)
  case 0
  then show ?case by (simp add: sem_eps)
next
  case (Suc k)
  have alt: "sem (Alt r Epsilon) pre [] ([] @ post)" by (simp add: sem_alt2 sem_eps)
  have "sem (Seq (Alt r Epsilon) (foldr Seq (replicate k (Alt r Epsilon)) Epsilon)) pre ([] @ []) post"
    by (rule sem_seq [OF alt Suc.IH [of "pre @ []"]])
  then show ?case by simp
qed

lemma of_char_lower:
  "(of_char (lower_char x) :: nat) = (if 65 \<le> (of_char x :: nat) \<and> (of_char x :: nat) \<le> 90 then of_char x + 32 else of_char x)"
  by (simp add: lower_char_def Let_def)

lemma of_char_upper:
  "(of_char (upper_char x) :: nat) = (if 97 \<le> (of_char x :: nat) \<and> (of_char x :: nat) \<le> 122 then of_char x - 32 else of_char x)"
  by (auto simp: upper_char_def Let_def)

lemma char_in_set_of_char: "x \<in> set cs \<longleftrightarrow> (of_char x :: nat) \<in> set (map of_char cs)"
  by auto

lemma of_char_le_255 [simp]: "(of_char x :: nat) \<le> 255"
  using nat_of_char_less_256 [of x] by linarith

lemma cls_match_of_char:
  "cls_match False rs x \<longleftrightarrow>
     list_ex (\<lambda>(a, b). let k = (of_char x :: nat); l = (if 65 \<le> k \<and> k \<le> 90 then k + 32 else k);
                          u = (if 97 \<le> k \<and> k \<le> 122 then k - 32 else k)
                      in (of_char a \<le> k \<and> k \<le> of_char b) \<or> (of_char a \<le> l \<and> l \<le> of_char b) \<or>
                         (of_char a \<le> u \<and> u \<le> of_char b)) rs"
  by (simp add: cls_match_def in_range_def of_char_lower of_char_upper Let_def)

lemma cls_match_negated: "cls_match True rs x \<longleftrightarrow> \<not> cls_match False rs x"
  by (simp add: cls_match_def)

lemma sem_boundary:
  "sem (Seq (Wordb b) Epsilon) pre w post \<longleftrightarrow> w = [] \<and> b = (word_before pre \<noteq> word_after post)"
proof
  assume "sem (Seq (Wordb b) Epsilon) pre w post"
  then show "w = [] \<and> b = (word_before pre \<noteq> word_after post)" by (auto elim!: sem.cases)
next
  assume "w = [] \<and> b = (word_before pre \<noteq> word_after post)"
  then show "sem (Seq (Wordb b) Epsilon) pre w post"
    using sem_seq [of "Wordb b" pre "[]" "[]" post Epsilon] by (auto intro: sem_wordb sem_eps)
qed

lemma rx_search_boundary: "rx_search (Seq (Wordb True) Epsilon) s \<longleftrightarrow> list_ex word_char s"
proof
  assume "rx_search (Seq (Wordb True) Epsilon) s"
  then obtain pre w post where s: "s = pre @ w @ post" and sm: "sem (Seq (Wordb True) Epsilon) pre w post"
    unfolding rx_search_sem rx_matches_def by blast
  from sm have bd: "word_before pre \<noteq> word_after post" by (simp add: sem_boundary)
  then consider "word_before pre" | "word_after post" by blast
  then show "list_ex word_char s"
  proof cases
    case 1
    then have "last pre \<in> set pre" "word_char (last pre)" by (simp_all add: word_before_def)
    then show ?thesis using s unfolding list_ex_iff by (intro bexI [of _ "last pre"]) simp_all
  next
    case 2
    then have "hd post \<in> set post" "word_char (hd post)" by (simp_all add: word_after_def)
    then show ?thesis using s unfolding list_ex_iff by (intro bexI [of _ "hd post"]) simp_all
  qed
next
  assume "list_ex word_char s"
  then have "\<exists>x \<in> set s. word_char x" by (simp add: list_ex_iff)
  then obtain ys x zs where s: "s = ys @ x # zs" and x: "word_char x" and ys: "\<forall>y \<in> set ys. \<not> word_char y"
    using split_list_first_prop [of s word_char] by blast
  have "\<not> word_before ys"
  proof
    assume "word_before ys"
    then have "last ys \<in> set ys" "word_char (last ys)" by (simp_all add: word_before_def)
    with ys show False by blast
  qed
  moreover have "word_after (x # zs)" using x by (simp add: word_after_def)
  ultimately have "sem (Seq (Wordb True) Epsilon) ys [] (x # zs)" by (simp add: sem_boundary)
  then have "rx_matches (Seq (Wordb True) Epsilon) s"
    unfolding rx_matches_def using s by (intro exI [of _ ys] exI [of _ "[]"] exI [of _ "x # zs"]) simp
  then show "rx_search (Seq (Wordb True) Epsilon) s" by (simp add: rx_search_sem)
qed

end
