(* ===== verification/NumParse.thy ===== *)
theory NumParse
  imports Prelude
begin

text \<open>
  JavaScript numbers as the handlers produce and compare them, and the two string
  conversions the program uses: \<open>parseFloat(searchText)\<close>
  (\<open>src/Backend/server.js\<close>, \<open>GET /transactions\<close>) and the decimal rendering of a
  non-negative integer in the labels of the price histogram (\<open>`${min}-${max}`\<close>,
  \<open>GET /barchart\<close>). \<open>parseFloat\<close> follows ECMA-262: leading white space is
  skipped, then the longest prefix that is a decimal literal (optional sign, digits,
  optional fraction, optional exponent, or \<open>Infinity\<close>) is read; with no such
  prefix the result is \<open>NaN\<close>. A finite result is kept as the exact rational the
  literal denotes.
\<close>

section \<open>Definitions\<close>

datatype jsnum = Fin rat | PosInf | NegInf | NaN

definition is_digit :: "char \<Rightarrow> bool" where
  "is_digit c \<longleftrightarrow> (let n = (of_char c :: nat) in 48 \<le> n \<and> n \<le> 57)"

definition digit_value :: "char \<Rightarrow> nat" where
  "digit_value c = of_char c - 48"

definition js_space :: "char \<Rightarrow> bool" where
  "js_space c \<longleftrightarrow> (let n = (of_char c :: nat) in (9 \<le> n \<and> n \<le> 13) \<or> n = 32)"

definition digits_value :: "string \<Rightarrow> nat" where
  "digits_value ds = foldl (\<lambda>acc d. 10 * acc + digit_value d) 0 ds"

text \<open>The exponent part \<open>e[+-]digits\<close>; an incomplete one is not part of the literal.\<close>

definition exponent_part :: "string \<Rightarrow> int" where
  "exponent_part u =
     (case u of
       c # r \<Rightarrow>
         if c = CHR ''e'' \<or> c = CHR ''E'' then
           (case r of
             s # r' \<Rightarrow>
               if s = CHR ''+'' then int (digits_value (takeWhile is_digit r'))
               else if s = CHR ''-'' then - int (digits_value (takeWhile is_digit r'))
               else int (digits_value (takeWhile is_digit r))
           | [] \<Rightarrow> 0)
         else 0
     | [] \<Rightarrow> 0)"

definition scale10 :: "rat \<Rightarrow> int \<Rightarrow> rat" where
  "scale10 m e = (if 0 \<le> e then m * 10 ^ nat e else m / 10 ^ nat (- e))"

definition split_sign :: "string \<Rightarrow> int \<times> string" where
  "split_sign t =
     (case t of
       c # r \<Rightarrow> if c = CHR ''-'' then (-1, r) else if c = CHR ''+'' then (1, r) else (1, t)
     | [] \<Rightarrow> (1, []))"

definition split_fraction :: "string \<Rightarrow> string \<times> string" where
  "split_fraction u1 =
     (case u1 of
       c # r \<Rightarrow> if c = CHR ''.'' then (takeWhile is_digit r, dropWhile is_digit r) else ([], u1)
     | [] \<Rightarrow> ([], []))"

definition parse_unsigned :: "int \<Rightarrow> string \<Rightarrow> jsnum" where
  "parse_unsigned sg u =
     (if take 8 u = ''Infinity'' then (if sg < 0 then NegInf else PosInf)
      else
        (let ip = takeWhile is_digit u;
             (fp, u2) = split_fraction (dropWhile is_digit u)
         in if ip = [] \<and> fp = [] then NaN
            else Fin (scale10 (of_int sg * of_nat (digits_value (ip @ fp)))
                       (exponent_part u2 - int (length fp)))))"

definition parse_float :: "string \<Rightarrow> jsnum" where
  "parse_float s = (case split_sign (dropWhile js_space s) of (sg, u) \<Rightarrow> parse_unsigned sg u)"

text \<open>\<open>String(n)\<close> for a non-negative integer \<open>n\<close>: its decimal digits.\<close>

fun show_nat :: "nat \<Rightarrow> string" where
  "show_nat n = (if n < 10 then [char_of (48 + n)] else show_nat (n div 10) @ [char_of (48 + n mod 10)])"

declare show_nat.simps [simp del]

text \<open>A text that ends a number literal: empty, or not continuing it with a digit,
  a point or an exponent.\<close>

definition ends_number :: "string \<Rightarrow> bool" where
  "ends_number t \<longleftrightarrow> t = [] \<or> (\<not> is_digit (hd t) \<and> hd t \<noteq> CHR ''.'' \<and> hd t \<noteq> CHR ''e'' \<and> hd t \<noteq> CHR ''E'')"

section \<open>Properties\<close>

lemma show_nat_digits: "\<forall>c \<in> set (show_nat n). is_digit c"
proof (induction n rule: show_nat.induct)
  case (1 n)
  have "is_digit (char_of (48 + k))" if "k < 10" for k :: nat
    using that by (simp add: is_digit_def)
  with "1.IH" show ?case
    by (subst show_nat.simps) simp
qed

lemma show_nat_nonempty: "show_nat n \<noteq> []"
  by (subst show_nat.simps) simp

lemma digit_value_char: "k < 10 \<Longrightarrow> digit_value (char_of (48 + k)) = k"
  by (simp add: digit_value_def)

lemma digits_value_show_nat: "digits_value (show_nat n) = n"
proof (induction n rule: show_nat.induct)
  case (1 n)
  show ?case
  proof (cases "n < 10")
    case True
    then show ?thesis
      by (subst show_nat.simps) (simp add: digits_value_def digit_value_char)
  next
    case False
    with "1.IH" have "digits_value (show_nat (n div 10)) = n div 10" by simp
    with False show ?thesis
      by (subst show_nat.simps) (simp add: digits_value_def digit_value_char)
  qed
qed

lemma digit_not_space: "is_digit c \<Longrightarrow> \<not> js_space c"
  by (auto simp: is_digit_def js_space_def Let_def)

lemma show_nat_hd_digit: "\<exists>c cs. show_nat n = c # cs \<and> is_digit c"
proof -
  obtain c cs where e: "show_nat n = c # cs"
    using show_nat_nonempty [of n] by (cases "show_nat n") auto
  with show_nat_digits [of n] show ?thesis by auto
qed

lemma parse_float_show_nat_append:
  assumes "ends_number t"
  shows "parse_float (show_nat n @ t) = Fin (of_nat n)"
proof -
  obtain c cs where sn: "show_nat n = c # cs" and c: "is_digit c"
    using show_nat_hd_digit by blast
  have alld: "\<forall>d \<in> set (show_nat n). is_digit d" by (rule show_nat_digits)
  have sp: "dropWhile js_space (show_nat n @ t) = show_nat n @ t"
    using sn c by (simp add: digit_not_space)
  have sign: "c \<noteq> CHR ''-'' \<and> c \<noteq> CHR ''+''" using c by (auto simp: is_digit_def)
  have inf: "take 8 (show_nat n @ t) \<noteq> ''Infinity''"
    using sn c by (auto simp: is_digit_def)
  have tw: "takeWhile is_digit (show_nat n @ t) = show_nat n"
    using alld assms by (cases t) (simp_all add: takeWhile_append2 ends_number_def)
  have dw: "dropWhile is_digit (show_nat n @ t) = t"
    using alld assms by (cases t) (simp_all add: dropWhile_append2 ends_number_def)
  have rest: "split_fraction t = ([], t)"
    using assms by (cases t) (simp_all add: ends_number_def split_fraction_def)
  have ex: "exponent_part t = 0"
    using assms by (cases t) (simp_all add: ends_number_def exponent_part_def)
  have sg: "split_sign (show_nat n @ t) = (1, show_nat n @ t)"
    using sn sign by (simp add: split_sign_def)
  show ?thesis
    using inf show_nat_nonempty [of n]
    by (simp add: parse_float_def parse_unsigned_def sp sg tw dw rest ex digits_value_show_nat scale10_def)
qed

lemma parse_float_NaN_no_digits:
  assumes nd: "list_all (\<lambda>c. \<not> is_digit c) s" and ni: "\<not> sublist ''Infinity'' s"
  shows "parse_float s = NaN"
proof -
  obtain sg u where spl: "split_sign (dropWhile js_space s) = (sg, u)" by fastforce
  have st: "suffix (dropWhile js_space s) s" by (rule suffix_dropWhile)
  have "suffix u (dropWhile js_space s)"
    using spl by (cases "dropWhile js_space s") (auto simp: split_sign_def suffix_def split: if_splits)
  then obtain zs where "dropWhile js_space s = zs @ u" by (auto simp: suffix_def)
  moreover from st obtain ys where "s = ys @ dropWhile js_space s" by (auto simp: suffix_def)
  ultimately have s: "s = (ys @ zs) @ u" by simp
  then have du: "\<forall>c \<in> set u. \<not> is_digit c" using nd by (auto simp: list_all_iff)
  have inf: "take 8 u \<noteq> ''Infinity''"
  proof
    assume "take 8 u = ''Infinity''"
    then have "u = ''Infinity'' @ drop 8 u" by (metis append_take_drop_id)
    with s have "s = (ys @ zs) @ ''Infinity'' @ drop 8 u" by simp
    with ni show False unfolding sublist_def by blast
  qed
  have ip: "takeWhile is_digit u = []" using du by (cases u) auto
  have dw: "dropWhile is_digit u = u" using du by (cases u) auto
  have fp: "fst (split_fraction u) = []"
    using du by (cases u) (auto simp: split_fraction_def takeWhile_eq_Nil_iff)
  then obtain u2 where fp2: "split_fraction u = ([], u2)" by (cases "split_fraction u") auto
  have "parse_unsigned sg u = NaN"
    using inf ip dw fp2 by (simp add: parse_unsigned_def)
  then show ?thesis using spl by (simp add: parse_float_def)
qed

end
