(* ===== verification/RegexParse.thy ===== *)
theory RegexParse
  imports Regex NumParse
begin

text \<open>
  The PCRE pattern compiler for the search text of \<open>GET /transactions\<close>
  (\<open>src/Backend/server.js\<close>, \<open>{ $regex: searchText, $options: 'i' }\<close>):
  \<open>parse_rx\<close> reads a pattern into the syntax \<open>re\<close> of \<open>Regex\<close>, with bracket
  expressions (\<open>parse_class\<close>), counted repetitions (\<open>read_repeat\<close>,
  \<open>repeat_re\<close>) and backslash escapes (\<open>escape_atom\<close>). An invalid pattern
  (unbalanced parentheses, a quantifier with nothing to repeat, a trailing
  backslash, a bracket expression without its closing bracket, a range whose bounds
  are out of order, repetition bounds out of order or above 65535) is
  \<open>Rx_invalid\<close>, the error MongoDB raises; a construct outside the fragment
  (look-around and option groups, possessive quantifiers, back references, POSIX
  classes) is
  \<open>Rx_unsupported\<close>, a value that marks the input as outside the model.
  The theorems: a pattern without metacharacters searches for a case-insensitive
  substring, which is what the specification describes; what letter classes,
  escapes and counted repetitions match; and the syntax errors.
\<close>

section \<open>Definitions\<close>

datatype item_kind = Atom_item | Quantified_item | Lazy_item | Anchor_item

datatype rx_error = Rx_invalid | Rx_unsupported

type_synonym frame = "re list \<times> (re \<times> item_kind) list"

definition seq_re :: "(re \<times> item_kind) list \<Rightarrow> re" where
  "seq_re items = foldr Seq (map fst items) Epsilon"

definition frame_re :: "frame \<Rightarrow> re" where
  "frame_re fr = foldr Alt (fst fr) (seq_re (snd fr))"

definition push_item :: "re \<times> item_kind \<Rightarrow> frame \<Rightarrow> frame" where
  "push_item it fr = (fst fr, snd fr @ [it])"

definition apply_quantifier :: "char \<Rightarrow> re \<Rightarrow> re" where
  "apply_quantifier q r =
     (if q = CHR ''*'' then Star r else if q = CHR ''+'' then Seq r (Star r) else Alt r Epsilon)"

text \<open>
  A counted repetition \<open>{n}\<close>, \<open>{n,}\<close>, \<open>{n,m}\<close>: \<open>n\<close> copies of the item
  followed by a star or by \<open>m - n\<close> optional copies. Greedy and lazy forms match the
  same segments, which is all an unanchored search observes.
\<close>

definition repeat_re :: "nat \<Rightarrow> nat option \<Rightarrow> re \<Rightarrow> re" where
  "repeat_re n mx r =
     foldr Seq (replicate n r)
       (case mx of None \<Rightarrow> Star r | Some m \<Rightarrow> foldr Seq (replicate (m - n) (Alt r Epsilon)) Epsilon)"

text \<open>
  Applying a quantifier (its character \<open>q\<close> and what it makes of the item) to the
  last item of a branch: a quantifier after nothing or after a quantifier is an
  error, a \<open>?\<close> after a quantifier makes it lazy, a \<open>+\<close> possessive.
\<close>

definition quantify :: "char \<Rightarrow> (re \<Rightarrow> re) \<Rightarrow> (re \<times> item_kind) list \<Rightarrow> rx_error + (re \<times> item_kind) list" where
  "quantify q f items =
     (if items = [] then Inl Rx_invalid
      else (case last items of
        (r, Atom_item) \<Rightarrow> Inr (butlast items @ [(f r, Quantified_item)])
      | (r, Quantified_item) \<Rightarrow>
          if q = CHR ''?'' then Inr (butlast items @ [(r, Lazy_item)])
          else if q = CHR ''+'' then Inl Rx_unsupported else Inl Rx_invalid
      | (r, Lazy_item) \<Rightarrow> Inl Rx_unsupported
      | (r, Anchor_item) \<Rightarrow> Inl Rx_unsupported))"

definition is_ascii_alnum :: "char \<Rightarrow> bool" where
  "is_ascii_alnum c \<longleftrightarrow>
     (let n = (of_char c :: nat) in (48 \<le> n \<and> n \<le> 57) \<or> (65 \<le> n \<and> n \<le> 90) \<or> (97 \<le> n \<and> n \<le> 122))"

text \<open>
  The bounds of \<open>{n}\<close>, \<open>{n,}\<close> and \<open>{n,m}\<close>, as PCRE's \<open>read_repeat_counts\<close>
  reads them: a bound above 65535, or \<open>m < n\<close>, is an error; a \<open>{\<close> that does not
  start this syntax (\<open>{\<close>, \<open>{,n}\<close>, \<open>{x}\<close>) is \<open>None\<close>, a literal brace.
\<close>

definition MAX_REPEAT_COUNT :: nat where
  "MAX_REPEAT_COUNT = 65535"

definition repeat_counts :: "string \<Rightarrow> string option \<Rightarrow> string \<Rightarrow> rx_error + (nat \<times> nat option) \<times> string" where
  "repeat_counts d1 d2 rest =
     (let n = digits_value d1 in
      if MAX_REPEAT_COUNT < n then Inl Rx_invalid
      else (case d2 of
              None \<Rightarrow> Inr ((n, None), rest)
            | Some d \<Rightarrow>
                (let m = digits_value d in
                 if MAX_REPEAT_COUNT < m \<or> m < n then Inl Rx_invalid else Inr ((n, Some m), rest))))"

definition read_repeat :: "string \<Rightarrow> (rx_error + (nat \<times> nat option) \<times> string) option" where
  "read_repeat cs =
     (let d1 = takeWhile is_digit cs in
      if d1 = [] then None
      else (case dropWhile is_digit cs of
              [] \<Rightarrow> None
            | c # r \<Rightarrow>
                if c = CHR ''}'' then Some (repeat_counts d1 (Some d1) r)
                else if c = CHR '','' then
                  (let d2 = takeWhile is_digit r in
                   case dropWhile is_digit r of
                     [] \<Rightarrow> None
                   | e # r' \<Rightarrow>
                       if e = CHR ''}'' then Some (repeat_counts d1 (if d2 = [] then None else Some d2) r')
                       else None)
                else None))"

text \<open>
  Backslash escapes. \<open>\d\<close>, \<open>\w\<close>, \<open>\s\<close> and their complements \<open>\D\<close>,
  \<open>\W\<close>, \<open>\S\<close> are the ranges of PCRE's default character tables on byte values
  (\<open>\s\<close> is tab, newline, vertical tab, form feed, carriage return and space);
  \<open>\n\<close>, \<open>\t\<close>, \<open>\r\<close>, \<open>\f\<close>, \<open>\e\<close>, \<open>\a\<close> are control characters;
  \<open>\A\<close> and \<open>\Z\<close> are the anchors \<open>^\<close> and \<open>$\<close> of a pattern without the
  multiline option, \<open>\G\<close> is \<open>\A\<close> for a search from offset 0, \<open>\z\<close> is the end
  of the subject, \<open>\b\<close> and \<open>\B\<close> a word boundary and its negation. Other
  escapes of letters and digits (back references, \<open>\x\<close>, \<open>\p\<close>, ...) are
  outside the fragment.
\<close>

definition digit_ranges :: "(char \<times> char) list" where
  "digit_ranges = [(CHR ''0'', CHR ''9'')]"

definition word_ranges :: "(char \<times> char) list" where
  "word_ranges = [(CHR ''0'', CHR ''9''), (CHR ''A'', CHR ''Z''), (CHR ''_'', CHR ''_''), (CHR ''a'', CHR ''z'')]"

definition space_ranges :: "(char \<times> char) list" where
  "space_ranges = [(CHR 0x09, CHR 0x0D), (CHR 0x20, CHR 0x20)]"

definition non_digit_ranges :: "(char \<times> char) list" where
  "non_digit_ranges = [(CHR 0x00, CHR 0x2F), (CHR 0x3A, CHR 0xFF)]"

definition non_word_ranges :: "(char \<times> char) list" where
  "non_word_ranges = [(CHR 0x00, CHR 0x2F), (CHR 0x3A, CHR 0x40), (CHR 0x5B, CHR 0x5E), (CHR 0x60, CHR 0x60),
     (CHR 0x7B, CHR 0xFF)]"

definition non_space_ranges :: "(char \<times> char) list" where
  "non_space_ranges = [(CHR 0x00, CHR 0x08), (CHR 0x0E, CHR 0x1F), (CHR 0x21, CHR 0xFF)]"

definition class_escape :: "char \<Rightarrow> (char \<times> char) list option" where
  "class_escape d =
     (if d = CHR ''d'' then Some digit_ranges else if d = CHR ''D'' then Some non_digit_ranges
      else if d = CHR ''w'' then Some word_ranges else if d = CHR ''W'' then Some non_word_ranges
      else if d = CHR ''s'' then Some space_ranges else if d = CHR ''S'' then Some non_space_ranges
      else None)"

definition escape_char :: "char \<Rightarrow> char option" where
  "escape_char d =
     (if d = CHR ''n'' then Some (CHR 0x0A) else if d = CHR ''t'' then Some (CHR 0x09)
      else if d = CHR ''r'' then Some (CHR 0x0D) else if d = CHR ''f'' then Some (CHR 0x0C)
      else if d = CHR ''e'' then Some (CHR 0x1B) else if d = CHR ''a'' then Some (CHR 0x07)
      else None)"

definition escape_atom :: "char \<Rightarrow> (re \<times> item_kind) option" where
  "escape_atom d =
     (case class_escape d of
        Some rs \<Rightarrow> Some (Cls False rs, Atom_item)
      | None \<Rightarrow>
          (case escape_char d of
             Some x \<Rightarrow> Some (Lit x, Atom_item)
           | None \<Rightarrow>
               if d = CHR ''A'' \<or> d = CHR ''G'' then Some (Bol, Anchor_item)
               else if d = CHR ''Z'' then Some (Eol, Anchor_item)
               else if d = CHR ''z'' then Some (Eos, Anchor_item)
               else if d = CHR ''b'' then Some (Wordb True, Anchor_item)
               else if d = CHR ''B'' then Some (Wordb False, Anchor_item) else None))"

text \<open>Inside a bracket expression \<open>\b\<close> is a backspace and any other non-alphanumeric escape is the character itself.\<close>

definition class_escape_char :: "char \<Rightarrow> char option" where
  "class_escape_char d =
     (if \<not> is_ascii_alnum d then Some d else if d = CHR ''b'' then Some (CHR 0x08) else escape_char d)"

definition range_follows :: "string \<Rightarrow> bool" where
  "range_follows cs \<longleftrightarrow> (case cs of m # e # _ \<Rightarrow> m = CHR ''-'' \<and> e \<noteq> CHR '']'' | _ \<Rightarrow> False)"

text \<open>
  The body of a bracket expression after \<open>[\<close> or \<open>[^\<close>, up to its \<open>]\<close>: the
  ranges and the rest of the pattern. A \<open>]\<close> in first position is a literal, so is
  a \<open>-\<close> that cannot form a range; a range whose bounds are out of order and a
  missing \<open>]\<close> are errors; an escape used as the bound of a range and POSIX
  classes \<open>[:...:]\<close> are outside the fragment.
\<close>

fun parse_class :: "string \<Rightarrow> bool \<Rightarrow> (char \<times> char) list \<Rightarrow> rx_error + (char \<times> char) list \<times> string" where
  "parse_class [] first acc = Inl Rx_invalid"
| "parse_class (c # cs) first acc =
     (if c = CHR '']'' \<and> \<not> first then Inr (acc, cs)
      else if c = CHR 0x5C then
        (case cs of
           [] \<Rightarrow> Inl Rx_invalid
         | d # ds \<Rightarrow>
             if range_follows ds then Inl Rx_unsupported
             else (case class_escape d of
                     Some rs \<Rightarrow> parse_class ds False (acc @ rs)
                   | None \<Rightarrow>
                       (case class_escape_char d of
                          Some x \<Rightarrow> parse_class ds False (acc @ [(x, x)])
                        | None \<Rightarrow> Inl Rx_unsupported)))
      else if c = CHR ''['' \<and> take 1 cs \<in> {'':'', ''.'', ''=''} then Inl Rx_unsupported
      else (case cs of
              d # e # es \<Rightarrow>
                if d = CHR ''-'' \<and> e \<noteq> CHR '']'' then
                  (if e = CHR 0x5C \<or> e = CHR ''['' then Inl Rx_unsupported
                   else if (of_char e :: nat) < of_char c then Inl Rx_invalid
                   else parse_class es False (acc @ [(c, e)]))
                else parse_class cs False (acc @ [(c, c)])
            | _ \<Rightarrow> parse_class cs False (acc @ [(c, c)])))"

function parse_rx :: "string \<Rightarrow> frame \<Rightarrow> frame list \<Rightarrow> rx_error + re" where
  "parse_rx [] fr stk = (if stk = [] then Inr (frame_re fr) else Inl Rx_invalid)"
| "parse_rx (c # cs) fr stk =
     (if c = CHR 0x5C then
        (case cs of
          [] \<Rightarrow> Inl Rx_invalid
        | d # ds \<Rightarrow>
            if is_ascii_alnum d then
              (case escape_atom d of
                 None \<Rightarrow> Inl Rx_unsupported
               | Some it \<Rightarrow> parse_rx ds (push_item it fr) stk)
            else parse_rx ds (push_item (Lit d, Atom_item) fr) stk)
      else if c = CHR ''('' then
        (if take 2 cs = ''?:'' then parse_rx (drop 2 cs) ([], []) (fr # stk)
         else if take 1 cs = [CHR ''?''] then Inl Rx_unsupported
         else parse_rx cs ([], []) (fr # stk))
      else if c = CHR '')'' then
        (case stk of
          [] \<Rightarrow> Inl Rx_invalid
        | p # ps \<Rightarrow> parse_rx cs (push_item (frame_re fr, Atom_item) p) ps)
      else if c = CHR ''|'' then parse_rx cs (fst fr @ [seq_re (snd fr)], []) stk
      else if c = CHR ''*'' \<or> c = CHR ''+'' \<or> c = CHR ''?'' then
        (case quantify c (apply_quantifier c) (snd fr) of
          Inl e \<Rightarrow> Inl e
        | Inr items \<Rightarrow> parse_rx cs (fst fr, items) stk)
      else if c = CHR ''.'' then parse_rx cs (push_item (AnyChar, Atom_item) fr) stk
      else if c = CHR ''^'' then parse_rx cs (push_item (Bol, Anchor_item) fr) stk
      else if c = CHR ''$'' then parse_rx cs (push_item (Eol, Anchor_item) fr) stk
      else if c = CHR ''['' then
        (let neg = (take 1 cs = [CHR ''^'']) in
         case parse_class (if neg then tl cs else cs) True [] of
           Inl e \<Rightarrow> Inl e
         | Inr (rs, rest) \<Rightarrow> parse_rx rest (push_item (Cls neg rs, Atom_item) fr) stk)
      else if c = CHR ''{'' then
        (case read_repeat cs of
           None \<Rightarrow> parse_rx cs (push_item (Lit c, Atom_item) fr) stk
         | Some (Inl e) \<Rightarrow> Inl e
         | Some (Inr ((n, mx), rest)) \<Rightarrow>
             (case quantify c (repeat_re n mx) (snd fr) of
                Inl e \<Rightarrow> Inl e
              | Inr items \<Rightarrow> parse_rx rest (fst fr, items) stk))
      else parse_rx cs (push_item (Lit c, Atom_item) fr) stk)"
  by pat_completeness auto
termination
proof -
  have pc: "parse_class cs f acc = Inr x \<Longrightarrow> length (snd x) < length cs" for cs f acc x
  proof (induction cs f acc rule: parse_class.induct)
    case (2 c cs first acc)
    then show ?case by (auto split: if_splits list.splits option.splits) (metis less_SucI)+
  qed simp
  have rc: "repeat_counts d1 d2 rest = Inr x \<Longrightarrow> snd x = rest" for d1 d2 rest x
    by (auto simp: repeat_counts_def Let_def split: if_splits option.splits)
  have rr: "length (snd x) < length cs" if rd: "read_repeat cs = Some (Inr x)" for cs x
  proof -
    obtain c r where cr: "dropWhile is_digit cs = c # r"
      using rd by (auto simp: read_repeat_def Let_def split: list.splits if_splits)
    have lr: "length r < length cs"
      using length_dropWhile_le [of is_digit cs] cr by simp
    show ?thesis
    proof (cases "c = CHR ''}''")
      case True
      then show ?thesis using rd cr lr by (auto simp: read_repeat_def Let_def split: if_splits dest!: rc)
    next
      case False
      then obtain e r' where er: "dropWhile is_digit r = e # r'"
        using rd cr by (auto simp: read_repeat_def Let_def split: list.splits if_splits)
      have "length r' < length r"
        using length_dropWhile_le [of is_digit r] er by simp
      then show ?thesis using rd cr er lr False
        by (auto simp: read_repeat_def Let_def split: if_splits dest!: rc)
    qed
  qed
  show ?thesis
    by (relation "measure (\<lambda>(p, fr, stk). length p)") (auto dest!: pc rr split: if_splits)
qed

definition compile_regex :: "string \<Rightarrow> rx_error + re" where
  "compile_regex p = parse_rx p ([], []) []"

definition regex_match_i :: "string \<Rightarrow> string \<Rightarrow> rx_error + bool" where
  "regex_match_i p s = (case compile_regex p of Inl e \<Rightarrow> Inl e | Inr r \<Rightarrow> Inr (rx_search r s))"

definition regex_meta :: "char list" where
  "regex_meta = [CHR 0x5C, CHR ''('', CHR '')'', CHR ''|'', CHR ''*'', CHR ''+'', CHR ''?'',
     CHR ''.'', CHR ''^'', CHR ''$'', CHR ''['', CHR ''{'']"

definition plain_pattern :: "string \<Rightarrow> bool" where
  "plain_pattern p \<longleftrightarrow> list_all (\<lambda>c. c \<notin> set regex_meta) p"

text \<open>Characters that stand for themselves inside a bracket expression.\<close>

definition class_plain :: "char \<Rightarrow> bool" where
  "class_plain c \<longleftrightarrow> c \<notin> set [CHR '']'', CHR 0x5C, CHR ''['', CHR ''-'', CHR ''^'']"

section \<open>Properties\<close>

lemma parse_rx_plain:
  "plain_pattern p \<Longrightarrow>
     parse_rx p fr [] = Inr (frame_re (fst fr, snd fr @ map (\<lambda>c. (Lit c, Atom_item)) p))"
proof (induction p arbitrary: fr)
  case Nil
  then show ?case by simp
next
  case (Cons c p)
  then have c: "c \<notin> set regex_meta" and p: "plain_pattern p"
    by (simp_all add: plain_pattern_def)
  from c have "parse_rx (c # p) fr [] = parse_rx p (push_item (Lit c, Atom_item) fr) []"
    by (simp add: regex_meta_def)
  also have "\<dots> = Inr (frame_re (fst fr, snd fr @ map (\<lambda>c. (Lit c, Atom_item)) (c # p)))"
    using Cons.IH [OF p] by (simp add: push_item_def)
  finally show ?case .
qed

lemma compile_regex_plain:
  "plain_pattern p \<Longrightarrow> compile_regex p = Inr (foldr Seq (map Lit p) Epsilon)"
  by (simp add: compile_regex_def parse_rx_plain frame_re_def seq_re_def comp_def)

lemma rx_search_plain:
  "plain_pattern p \<Longrightarrow> compile_regex p = Inr r \<Longrightarrow>
     rx_search r s \<longleftrightarrow> sublist (map lower_char p) (map lower_char s)"
proof -
  assume "plain_pattern p" and "compile_regex p = Inr r"
  then have r: "r = foldr Seq (map Lit p) Epsilon" by (simp add: compile_regex_plain)
  show ?thesis
    unfolding rx_search_sem rx_matches_def sublist_map_iff r sem_literals ..
qed

lemma regex_plain_is_substring:
  "plain_pattern p \<Longrightarrow> regex_match_i p s = Inr (sublist (map lower_char p) (map lower_char s))"
  by (simp add: regex_match_i_def compile_regex_plain rx_search_plain)


lemma parse_rx_plain_append:
  "plain_pattern p \<Longrightarrow>
     parse_rx (p @ q) fr stk = parse_rx q (fst fr, snd fr @ map (\<lambda>c. (Lit c, Atom_item)) p) stk"
proof (induction p arbitrary: fr)
  case (Cons c p)
  then have c: "c \<notin> set regex_meta" and p: "plain_pattern p"
    by (simp_all add: plain_pattern_def)
  from c have "parse_rx ((c # p) @ q) fr stk = parse_rx (p @ q) (push_item (Lit c, Atom_item) fr) stk"
    by (simp add: regex_meta_def)
  then show ?case using Cons.IH [OF p] by (simp add: push_item_def)
qed simp

lemma unbalanced_paren_invalid:
  assumes "plain_pattern p"
  shows "compile_regex (p @ '')'') = Inl Rx_invalid \<and> compile_regex (''('' @ p) = Inl Rx_invalid"
proof
  show "compile_regex (p @ '')'') = Inl Rx_invalid"
    by (simp add: compile_regex_def parse_rx_plain_append [OF assms])
next
  have "take 1 p \<noteq> [CHR ''?'']" "take 2 p \<noteq> ''?:''"
    using assms by (cases p, auto simp: plain_pattern_def regex_meta_def)+
  then show "compile_regex (''('' @ p) = Inl Rx_invalid"
    using parse_rx_plain_append [OF assms, of "[]" "([], [])" "[([], [])]"]
    by (simp add: compile_regex_def)
qed


lemma parse_class_lit:
  assumes "c \<noteq> CHR '']''" "c \<noteq> CHR 0x5C" "c \<noteq> CHR ''[''" "take 1 cs \<noteq> ''-''"
  shows "parse_class (c # cs) f acc = parse_class cs False (acc @ [(c, c)])"
  using assms by (subst parse_class.simps(2)) (auto simp del: parse_class.simps split: list.split)

lemma parse_class_plain:
  "list_all class_plain cs \<Longrightarrow> cs \<noteq> [] \<or> \<not> f \<Longrightarrow>
     parse_class (cs @ CHR '']'' # rest) f acc = Inr (acc @ map (\<lambda>c. (c, c)) cs, rest)"
proof (induction cs arbitrary: f acc)
  case Nil
  then show ?case by simp
next
  case (Cons c cs)
  then have c: "class_plain c" and p: "list_all class_plain cs" by simp_all
  have nd: "take 1 (cs @ CHR '']'' # rest) \<noteq> ''-''"
    using p by (cases cs) (simp_all add: class_plain_def)
  have "parse_class ((c # cs) @ CHR '']'' # rest) f acc = parse_class (cs @ CHR '']'' # rest) False (acc @ [(c, c)])"
    using c nd by (simp only: append_Cons) (rule parse_class_lit, simp_all add: class_plain_def)
  then show ?case using Cons.IH [OF p, of False "acc @ [(c, c)]"] by simp
qed

lemma parse_class_unterminated:
  "list_all class_plain cs \<Longrightarrow> parse_class cs f acc = Inl Rx_invalid"
proof (induction cs arbitrary: f acc)
  case (Cons c cs)
  then have c: "class_plain c" and p: "list_all class_plain cs" by simp_all
  have nd: "take 1 cs \<noteq> ''-''" using p by (cases cs) (simp_all add: class_plain_def)
  have "parse_class (c # cs) f acc = parse_class cs False (acc @ [(c, c)])"
    using c nd by (intro parse_class_lit) (simp_all add: class_plain_def)
  then show ?case using Cons.IH [OF p] by simp
qed simp

lemma class_letters_match:
  assumes "list_all class_plain cs" and "cs \<noteq> []"
  shows "regex_match_i (CHR ''['' # cs @ '']'') s =
           Inr (list_ex (\<lambda>x. list_ex (\<lambda>c. lower_char c = lower_char x) cs) s)"
proof -
  have n: "take 1 (cs @ '']'') \<noteq> [CHR ''^'']"
    using assms by (cases cs) (simp_all add: class_plain_def)
  have "compile_regex (CHR ''['' # cs @ '']'') = Inr (Seq (Cls False (map (\<lambda>c. (c, c)) cs)) Epsilon)"
    using n parse_class_plain [OF assms(1), of True "[]" "[]"] assms(2)
    by (simp add: compile_regex_def push_item_def frame_re_def seq_re_def)
  moreover have "cls_match False (map (\<lambda>c. (c, c)) cs) = (\<lambda>x. list_ex (\<lambda>c. lower_char c = lower_char x) cs)"
    by (rule ext) (simp add: cls_match_def list_ex_iff in_range_single case_fold_eq)
  ultimately show ?thesis by (simp add: regex_match_i_def rx_search_single)
qed

lemma class_syntax_errors:
  assumes "list_all class_plain cs" and "class_plain c" and "class_plain e" and "(of_char e :: nat) < of_char c"
  shows "compile_regex (CHR ''['' # cs) = Inl Rx_invalid \<and>
         compile_regex [CHR ''['', c, CHR ''-'', e, CHR '']''] = Inl Rx_invalid"
proof
  have "take 1 cs \<noteq> [CHR ''^'']" using assms(1) by (cases cs) (simp_all add: class_plain_def)
  then show "compile_regex (CHR ''['' # cs) = Inl Rx_invalid"
    using parse_class_unterminated [OF assms(1)] by (simp add: compile_regex_def)
next
  have c: "c \<noteq> CHR '']''" "c \<noteq> CHR 0x5C" "c \<noteq> CHR ''[''" "c \<noteq> CHR ''^''"
    and e: "e \<noteq> CHR '']''" "e \<noteq> CHR 0x5C" "e \<noteq> CHR ''[''"
    using assms(2,3) by (simp_all add: class_plain_def)
  have "parse_class [c, CHR ''-'', e, CHR '']''] True [] = Inl Rx_invalid"
    using c e assms(4) by simp
  then show "compile_regex [CHR ''['', c, CHR ''-'', e, CHR '']''] = Inl Rx_invalid"
    using c by (simp add: compile_regex_def)
qed

lemma repeat_re_search:
  "rx_matches (Seq (repeat_re n mx r) Epsilon) s \<longleftrightarrow> rx_matches (foldr Seq (replicate n r) Epsilon) s"
proof (cases mx)
  case None
  show ?thesis unfolding repeat_re_def None option.case by (rule rx_matches_empty_tail [OF sem_star0])
next
  case (Some m)
  show ?thesis unfolding repeat_re_def Some option.case by (rule rx_matches_empty_tail [OF sem_optional_copies])
qed

lemma takeWhile_digits_append:
  "\<not> is_digit c \<Longrightarrow> takeWhile is_digit (show_nat n @ c # r) = show_nat n"
  using show_nat_digits [of n] by simp

lemma dropWhile_digits_append:
  "\<not> is_digit c \<Longrightarrow> dropWhile is_digit (show_nat n @ c # r) = c # r"
  using show_nat_digits [of n] by simp

lemma brace_comma_not_digit: "\<not> is_digit (CHR ''}'')" "\<not> is_digit (CHR '','')"
  by (simp_all add: is_digit_def)

lemmas read_digits = takeWhile_digits_append dropWhile_digits_append brace_comma_not_digit show_nat_nonempty

lemma read_repeat_exact:
  "read_repeat (show_nat n @ CHR ''}'' # rest) = Some (repeat_counts (show_nat n) (Some (show_nat n)) rest)"
  by (simp add: read_repeat_def Let_def read_digits)

lemma read_repeat_open:
  "read_repeat (show_nat n @ CHR '','' # CHR ''}'' # rest) = Some (repeat_counts (show_nat n) None rest)"
  by (simp add: read_repeat_def Let_def read_digits)

lemma read_repeat_range:
  "read_repeat (show_nat n @ CHR '','' # show_nat m @ CHR ''}'' # rest) =
     Some (repeat_counts (show_nat n) (Some (show_nat m)) rest)"
  by (simp add: read_repeat_def Let_def read_digits)

lemma compile_counted:
  assumes "c \<notin> set regex_meta" and "read_repeat cs = Some (Inr ((n, mx), []))"
  shows "compile_regex (c # CHR ''{'' # cs) = Inr (Seq (repeat_re n mx (Lit c)) Epsilon)"
proof -
  have "parse_rx (c # CHR ''{'' # cs) ([], []) [] = parse_rx (CHR ''{'' # cs) ([], [(Lit c, Atom_item)]) []"
    using assms(1) by (simp add: regex_meta_def push_item_def)
  also have "\<dots> = Inr (Seq (repeat_re n mx (Lit c)) Epsilon)"
    using assms(2) by (simp add: quantify_def frame_re_def seq_re_def)
  finally show ?thesis by (simp add: compile_regex_def)
qed

lemma counted_search:
  assumes "c \<notin> set regex_meta" and "read_repeat cs = Some (Inr ((n, mx), []))"
  shows "regex_match_i (c # CHR ''{'' # cs) s = Inr (sublist (replicate n (lower_char c)) (map lower_char s))"
proof -
  have "rx_matches (foldr Seq (map Lit (replicate n c)) Epsilon) s \<longleftrightarrow>
        sublist (map lower_char (replicate n c)) (map lower_char s)"
    unfolding rx_matches_def sem_literals sublist_map_iff ..
  then have "rx_matches (foldr Seq (replicate n (Lit c)) Epsilon) s \<longleftrightarrow>
        sublist (replicate n (lower_char c)) (map lower_char s)"
    by (simp only: map_replicate)
  then show ?thesis
    by (simp add: regex_match_i_def compile_counted [OF assms] rx_search_sem repeat_re_search)
qed


lemma repeat_counts_ok:
  "n \<le> MAX_REPEAT_COUNT \<Longrightarrow> repeat_counts (show_nat n) None rest = Inr ((n, None), rest)"
  "n \<le> m \<Longrightarrow> m \<le> MAX_REPEAT_COUNT \<Longrightarrow>
     repeat_counts (show_nat n) (Some (show_nat m)) rest = Inr ((n, Some m), rest)"
  by (simp_all add: repeat_counts_def digits_value_show_nat)

lemma counted_repetition_search:
  assumes "c \<notin> set regex_meta" and "n \<le> m" and "m \<le> MAX_REPEAT_COUNT"
  shows "regex_match_i (c # CHR ''{'' # show_nat n @ ''}'') s =
           Inr (sublist (replicate n (lower_char c)) (map lower_char s)) \<and>
         regex_match_i (c # CHR ''{'' # show_nat n @ '',}'') s =
           Inr (sublist (replicate n (lower_char c)) (map lower_char s)) \<and>
         regex_match_i (c # CHR ''{'' # show_nat n @ CHR '','' # show_nat m @ ''}'') s =
           Inr (sublist (replicate n (lower_char c)) (map lower_char s))"
proof (intro conjI)
  have n: "n \<le> MAX_REPEAT_COUNT" using assms(2,3) by simp
  show "regex_match_i (c # CHR ''{'' # show_nat n @ ''}'') s =
          Inr (sublist (replicate n (lower_char c)) (map lower_char s))"
    using read_repeat_exact [of n "[]"] repeat_counts_ok(2) [OF order_refl n]
    by (intro counted_search [OF assms(1)]) simp
  show "regex_match_i (c # CHR ''{'' # show_nat n @ '',}'') s =
          Inr (sublist (replicate n (lower_char c)) (map lower_char s))"
    using read_repeat_open [of n "[]"] repeat_counts_ok(1) [OF n]
    by (intro counted_search [OF assms(1)]) simp
  show "regex_match_i (c # CHR ''{'' # show_nat n @ CHR '','' # show_nat m @ ''}'') s =
          Inr (sublist (replicate n (lower_char c)) (map lower_char s))"
    using read_repeat_range [of n m "[]"] repeat_counts_ok(2) [OF assms(2,3)]
    by (intro counted_search [OF assms(1)]) simp
qed

lemma escape_d: "cls_match False digit_ranges x \<longleftrightarrow> is_digit x"
  by (auto simp: cls_match_of_char digit_ranges_def is_digit_def Let_def)

lemma escape_D: "cls_match False non_digit_ranges x \<longleftrightarrow> \<not> is_digit x"
  using nat_of_char_less_256 [of x] by (auto simp: cls_match_of_char non_digit_ranges_def is_digit_def Let_def)

lemma escape_w: "cls_match False word_ranges x \<longleftrightarrow> is_ascii_alnum x \<or> x = CHR ''_''"
  by (auto simp: cls_match_of_char word_ranges_def is_ascii_alnum_def Let_def char_in_set_of_char [of x "[CHR ''_'']", simplified])


lemma escape_W: "cls_match False non_word_ranges x \<longleftrightarrow> \<not> (is_ascii_alnum x \<or> x = CHR ''_'')"
  by (auto simp: cls_match_of_char non_word_ranges_def is_ascii_alnum_def Let_def char_in_set_of_char [of x "[CHR ''_'']", simplified])

lemma escape_s: "cls_match False space_ranges x \<longleftrightarrow> x \<in> set [CHR 0x09, CHR 0x0A, CHR 0x0B, CHR 0x0C, CHR 0x0D, CHR 0x20]"
  unfolding char_in_set_of_char [of x] by (auto simp: cls_match_of_char space_ranges_def Let_def)

lemma escape_S: "cls_match False non_space_ranges x \<longleftrightarrow> x \<notin> set [CHR 0x09, CHR 0x0A, CHR 0x0B, CHR 0x0C, CHR 0x0D, CHR 0x20]"
  unfolding char_in_set_of_char [of x] by (auto simp: cls_match_of_char non_space_ranges_def Let_def)

lemma escape_search:
  assumes "class_escape d = Some rs"
  shows "regex_match_i [CHR 0x5C, d] s = Inr (list_ex (cls_match False rs) s)"
proof -
  have "is_ascii_alnum d" using assms
    by (auto simp: class_escape_def is_ascii_alnum_def split: if_splits)
  then have "compile_regex [CHR 0x5C, d] = Inr (Seq (Cls False rs) Epsilon)"
    using assms by (simp add: compile_regex_def escape_atom_def push_item_def frame_re_def seq_re_def)
  then show ?thesis by (simp add: regex_match_i_def rx_search_single)
qed

lemma bracket_escape_search:
  assumes "class_escape d = Some rs"
  shows "regex_match_i [CHR ''['', CHR ''^'', CHR 0x5C, d, CHR '']''] s = Inr (list_ex (cls_match True rs) s)"
proof -
  have "parse_class [CHR 0x5C, d, CHR '']''] True [] = Inr (rs, [])"
    using assms by (simp add: range_follows_def)
  then have "compile_regex [CHR ''['', CHR ''^'', CHR 0x5C, d, CHR '']''] = Inr (Seq (Cls True rs) Epsilon)"
    by (simp add: compile_regex_def push_item_def frame_re_def seq_re_def)
  then show ?thesis by (simp add: regex_match_i_def rx_search_single)
qed

lemma word_char_alnum: "word_char x \<longleftrightarrow> is_ascii_alnum x \<or> x = CHR ''_''"
proof -
  have "x = CHR ''_'' \<longleftrightarrow> (of_char x :: nat) = 95" using of_char_eq_iff [of x "CHR ''_''"] by auto
  then show ?thesis by (auto simp: word_char_def is_ascii_alnum_def Let_def)
qed

lemma boundary_search: "regex_match_i [CHR 0x5C, CHR ''b''] s = Inr (list_ex (\<lambda>x. is_ascii_alnum x \<or> x = CHR ''_'') s)"
proof -
  have "compile_regex [CHR 0x5C, CHR ''b''] = Inr (Seq (Wordb True) Epsilon)"
    by (simp add: compile_regex_def escape_atom_def class_escape_def escape_char_def is_ascii_alnum_def
        push_item_def frame_re_def seq_re_def)
  moreover have "word_char = (\<lambda>x. is_ascii_alnum x \<or> x = CHR ''_'')" by (rule ext) (rule word_char_alnum)
  ultimately show ?thesis by (simp add: regex_match_i_def rx_search_boundary)
qed

lemma escape_classes_search:
  "regex_match_i [CHR 0x5C, CHR ''d''] s = Inr (list_ex is_digit s) \<and>
   regex_match_i [CHR 0x5C, CHR ''D''] s = Inr (list_ex (\<lambda>x. \<not> is_digit x) s) \<and>
   regex_match_i [CHR 0x5C, CHR ''w''] s = Inr (list_ex (\<lambda>x. is_ascii_alnum x \<or> x = CHR ''_'') s) \<and>
   regex_match_i [CHR 0x5C, CHR ''W''] s = Inr (list_ex (\<lambda>x. \<not> (is_ascii_alnum x \<or> x = CHR ''_'')) s) \<and>
   regex_match_i [CHR 0x5C, CHR ''s''] s =
     Inr (list_ex (\<lambda>x. x \<in> set [CHR 0x09, CHR 0x0A, CHR 0x0B, CHR 0x0C, CHR 0x0D, CHR 0x20]) s) \<and>
   regex_match_i [CHR 0x5C, CHR ''S''] s =
     Inr (list_ex (\<lambda>x. x \<notin> set [CHR 0x09, CHR 0x0A, CHR 0x0B, CHR 0x0C, CHR 0x0D, CHR 0x20]) s) \<and>
   regex_match_i [CHR ''['', CHR ''^'', CHR 0x5C, CHR ''d'', CHR '']''] s = Inr (list_ex (\<lambda>x. \<not> is_digit x) s) \<and>
   regex_match_i [CHR 0x5C, CHR ''b''] s = Inr (list_ex (\<lambda>x. is_ascii_alnum x \<or> x = CHR ''_'') s)"
proof -
  have ce: "class_escape (CHR ''d'') = Some digit_ranges" "class_escape (CHR ''D'') = Some non_digit_ranges"
    "class_escape (CHR ''w'') = Some word_ranges" "class_escape (CHR ''W'') = Some non_word_ranges"
    "class_escape (CHR ''s'') = Some space_ranges" "class_escape (CHR ''S'') = Some non_space_ranges"
    by (simp_all add: class_escape_def)
  have fun_eqs: "cls_match False digit_ranges = is_digit"
    "cls_match False non_digit_ranges = (\<lambda>x. \<not> is_digit x)"
    "cls_match False word_ranges = (\<lambda>x. is_ascii_alnum x \<or> x = CHR ''_'')"
    "cls_match False non_word_ranges = (\<lambda>x. \<not> (is_ascii_alnum x \<or> x = CHR ''_''))"
    "cls_match False space_ranges = (\<lambda>x. x \<in> set [CHR 0x09, CHR 0x0A, CHR 0x0B, CHR 0x0C, CHR 0x0D, CHR 0x20])"
    "cls_match False non_space_ranges = (\<lambda>x. x \<notin> set [CHR 0x09, CHR 0x0A, CHR 0x0B, CHR 0x0C, CHR 0x0D, CHR 0x20])"
    "cls_match True digit_ranges = (\<lambda>x. \<not> is_digit x)"
    by (simp_all only: fun_eq_iff escape_d escape_D escape_w escape_W escape_s escape_S cls_match_negated) simp_all
  show ?thesis
    using escape_search [OF ce(1)] escape_search [OF ce(2)] escape_search [OF ce(3)]
          escape_search [OF ce(4)] escape_search [OF ce(5)] escape_search [OF ce(6)]
          bracket_escape_search [OF ce(1)] boundary_search [of s]
    by (simp only: fun_eqs)
qed

lemma repeat_counts_err:
  "MAX_REPEAT_COUNT < n \<Longrightarrow> repeat_counts (show_nat n) d rest = Inl Rx_invalid"
  "m < n \<Longrightarrow> repeat_counts (show_nat n) (Some (show_nat m)) rest = Inl Rx_invalid"
  by (auto simp: repeat_counts_def digits_value_show_nat split: option.splits)

lemma compile_counted_error:
  "c \<notin> set regex_meta \<Longrightarrow> read_repeat cs = Some (Inl e) \<Longrightarrow> compile_regex (c # CHR ''{'' # cs) = Inl e"
  by (simp add: compile_regex_def regex_meta_def push_item_def)

lemma repetition_of_nothing: "compile_regex (CHR ''{'' # show_nat k @ ''}'') = Inl Rx_invalid"
proof (cases "MAX_REPEAT_COUNT < k")
  case True
  then show ?thesis
    using read_repeat_exact [of k "[]"] repeat_counts_err(1) [OF True] by (simp add: compile_regex_def)
next
  case False
  then show ?thesis
    using read_repeat_exact [of k "[]"] repeat_counts_ok(2) [OF order_refl, of k "[]"]
    by (simp add: compile_regex_def quantify_def)
qed

lemma pattern_syntax_errors:
  assumes "plain_pattern p" and "list_all class_plain cs"
    and "class_plain a" and "class_plain b" and "(of_char b :: nat) < of_char a"
    and "c \<notin> set regex_meta" and "m < n"
  shows "compile_regex (p @ '')'') = Inl Rx_invalid \<and> compile_regex (''('' @ p) = Inl Rx_invalid \<and>
         compile_regex (CHR ''['' # cs) = Inl Rx_invalid \<and>
         compile_regex [CHR ''['', a, CHR ''-'', b, CHR '']''] = Inl Rx_invalid \<and>
         compile_regex (c # CHR ''{'' # show_nat n @ CHR '','' # show_nat m @ ''}'') = Inl Rx_invalid \<and>
         compile_regex (c # CHR ''{'' # show_nat (MAX_REPEAT_COUNT + 1 + k) @ ''}'') = Inl Rx_invalid \<and>
         compile_regex (CHR ''{'' # show_nat k @ ''}'') = Inl Rx_invalid"
proof -
  have "compile_regex (c # CHR ''{'' # show_nat n @ CHR '','' # show_nat m @ ''}'') = Inl Rx_invalid"
    using read_repeat_range [of n m "[]"] repeat_counts_err(2) [OF assms(7)]
    by (intro compile_counted_error [OF assms(6)]) simp
  moreover have "compile_regex (c # CHR ''{'' # show_nat (MAX_REPEAT_COUNT + 1 + k) @ ''}'') = Inl Rx_invalid"
    using read_repeat_exact [of "MAX_REPEAT_COUNT + 1 + k" "[]"] repeat_counts_err(1) [of "MAX_REPEAT_COUNT + 1 + k"]
    by (intro compile_counted_error [OF assms(6)]) simp
  ultimately show ?thesis
    using unbalanced_paren_invalid [OF assms(1)] class_syntax_errors [OF assms(2-5)] repetition_of_nothing [of k]
    by simp
qed

end
