(* ===== verification/Store.thy ===== *)
theory Store
  imports Calendar RegexParse NumParse
begin

text \<open>
  The record store as the handlers of \<open>src/Backend/server.js\<close> use it through
  Mongoose: the document type (\<open>DataSchema\<close>), the filter documents the handlers
  build (JavaScript objects whose keys are \<open>$expr\<close>, \<open>$or\<close> or a field name), the
  object spread \<open>{...a, ...b}\<close> that combines them, MongoDB's reading of a filter
  as a predicate on documents (which fails on an invalid regular expression), and
  the four store operations the handlers call: \<open>countDocuments\<close>,
  \<open>find(...).skip(k).limit(l)\<close>, and the two aggregation pipelines
  (\<open>$group\<close> with \<open>$sum\<close> of the price, \<open>$group\<close> by category).
  The collection is a list in the store's natural order; an unreachable store
  makes every operation fail.
\<close>

section \<open>Documents and the store\<close>

record transaction =
  txn_id :: int
  title :: string
  price :: price
  description :: string
  category :: string
  image :: string
  sold :: bool
  dateOfSale :: millis

record store =
  docs :: "transaction list"
  reachable :: bool

datatype store_error = Store_unreachable | Bad_query | Outside_model

section \<open>Filter documents\<close>

datatype field = F_title | F_description | F_price | F_sold

text \<open>
  The value a filter gives a field: \<open>{ $regex: p, $options: 'i' }\<close>, a number or a
  boolean to compare with, or \<open>{ $gte: lo, $lt: hi }\<close>.
\<close>

datatype leaf = Regex_i string | Eq_num jsnum | Eq_bool bool | Gte_lt rat jsnum

datatype qkey = K_expr | K_or | K_field field

text \<open>
  The value of a top-level key: \<open>{ $eq: [{ $month: "$dateOfSale" }, m] }\<close> under
  \<open>$expr\<close>, the array of one-field documents under \<open>$or\<close>, or a field's value.
\<close>

datatype qval = Month_eq nat | Any_of "(field \<times> leaf) list" | Is leaf

type_synonym query = "(qkey \<times> qval) list"

text \<open>
  \<open>{...a, ...b}\<close>: the entries of \<open>a\<close> in order, each replaced by \<open>b\<close>'s value when
  \<open>b\<close> has the same key, then the entries of \<open>b\<close> with keys \<open>a\<close> lacks.
\<close>

definition spread :: "query \<Rightarrow> query \<Rightarrow> query" where
  "spread a b =
     map (\<lambda>(k, v). (k, case map_of b k of Some v' \<Rightarrow> v' | None \<Rightarrow> v)) a @
     filter (\<lambda>(k, v). k \<notin> set (map fst a)) b"

section \<open>Reading a filter as a predicate\<close>

definition js_lt :: "rat \<Rightarrow> jsnum \<Rightarrow> bool" where
  "js_lt p n = (case n of Fin q \<Rightarrow> p < q | PosInf \<Rightarrow> True | NegInf \<Rightarrow> False | NaN \<Rightarrow> False)"

definition js_eq :: "rat \<Rightarrow> jsnum \<Rightarrow> bool" where
  "js_eq p n \<longleftrightarrow> n = Fin p"

definition regex_pred :: "(transaction \<Rightarrow> string) \<Rightarrow> string \<Rightarrow> store_error + (transaction \<Rightarrow> bool)" where
  "regex_pred sel p =
     (case compile_regex p of
       Inl Rx_invalid \<Rightarrow> Inl Bad_query
     | Inl Rx_unsupported \<Rightarrow> Inl Outside_model
     | Inr r \<Rightarrow> Inr (\<lambda>t. rx_search r (sel t)))"

fun leaf_pred :: "field \<Rightarrow> leaf \<Rightarrow> store_error + (transaction \<Rightarrow> bool)" where
  "leaf_pred F_title (Regex_i p) = regex_pred title p"
| "leaf_pred F_description (Regex_i p) = regex_pred description p"
| "leaf_pred F_price (Eq_num n) = Inr (\<lambda>t. js_eq (price t) n)"
| "leaf_pred F_price (Gte_lt lo hi) = Inr (\<lambda>t. lo \<le> price t \<and> js_lt (price t) hi)"
| "leaf_pred F_sold (Eq_bool b) = Inr (\<lambda>t. sold t = b)"
| "leaf_pred _ _ = Inl Outside_model"

fun any_pred :: "(field \<times> leaf) list \<Rightarrow> store_error + (transaction \<Rightarrow> bool)" where
  "any_pred [] = Inr (\<lambda>t. False)"
| "any_pred ((f, l) # rest) =
     (case leaf_pred f l of
       Inl e \<Rightarrow> Inl e
     | Inr P \<Rightarrow> (case any_pred rest of Inl e \<Rightarrow> Inl e | Inr Q \<Rightarrow> Inr (\<lambda>t. P t \<or> Q t)))"

fun entry_pred :: "qkey \<Rightarrow> qval \<Rightarrow> store_error + (transaction \<Rightarrow> bool)" where
  "entry_pred K_expr (Month_eq m) = Inr (\<lambda>t. utc_month (dateOfSale t) = m)"
| "entry_pred K_or (Any_of ls) = (if ls = [] then Inl Bad_query else any_pred ls)"
| "entry_pred (K_field f) (Is l) = leaf_pred f l"
| "entry_pred _ _ = Inl Outside_model"

fun query_pred :: "query \<Rightarrow> store_error + (transaction \<Rightarrow> bool)" where
  "query_pred [] = Inr (\<lambda>t. True)"
| "query_pred ((k, v) # rest) =
     (case entry_pred k v of
       Inl e \<Rightarrow> Inl e
     | Inr P \<Rightarrow> (case query_pred rest of Inl e \<Rightarrow> Inl e | Inr Q \<Rightarrow> Inr (\<lambda>t. P t \<and> Q t)))"

section \<open>Store operations\<close>

definition with_store :: "store \<Rightarrow> query \<Rightarrow> ((transaction \<Rightarrow> bool) \<Rightarrow> transaction list \<Rightarrow> store_error + 'a) \<Rightarrow> store_error + 'a" where
  "with_store db q f =
     (if \<not> reachable db then Inl Store_unreachable
      else case query_pred q of Inl e \<Rightarrow> Inl e | Inr P \<Rightarrow> f P (docs db))"

definition count_documents :: "store \<Rightarrow> query \<Rightarrow> store_error + nat" where
  "count_documents db q = with_store db q (\<lambda>P ds. Inr (length (filter P ds)))"

text \<open>\<open>limit(0)\<close> is no limit; a negative limit returns at most its absolute value.\<close>

definition apply_limit :: "int \<Rightarrow> 'a list \<Rightarrow> 'a list" where
  "apply_limit l xs = (if l = 0 then xs else take (nat \<bar>l\<bar>) xs)"

definition find_skip_limit :: "store \<Rightarrow> query \<Rightarrow> int \<Rightarrow> int \<Rightarrow> store_error + transaction list" where
  "find_skip_limit db q k l =
     with_store db q (\<lambda>P ds. if k < 0 then Inl Bad_query else Inr (apply_limit l (drop (nat k) (filter P ds))))"

text \<open>
  \<open>[{ $match: q }, { $group: { _id: null, totalAmount: { $sum: "$price" } } }]\<close>:
  no group, hence no result document, when nothing matches.
\<close>

definition aggregate_total_price :: "store \<Rightarrow> query \<Rightarrow> store_error + rat list" where
  "aggregate_total_price db q =
     with_store db q (\<lambda>P ds. Inr (if filter P ds = [] then [] else [sum_list (map price (filter P ds))]))"

text \<open>
  \<open>$group\<close> by category with a count: one pair per distinct category, here in order of
  first occurrence (MongoDB does not fix the order; the theorems about the chart are
  stated for every order).
\<close>

function group_count :: "string list \<Rightarrow> (string \<times> nat) list" where
  "group_count [] = []"
| "group_count (c # cs) = (c, Suc (count_list cs c)) # group_count (filter (\<lambda>x. x \<noteq> c) cs)"
  by pat_completeness auto
termination
  by (relation "measure length") (auto simp: le_imp_less_Suc)

definition aggregate_category_counts :: "store \<Rightarrow> query \<Rightarrow> store_error + (string \<times> nat) list" where
  "aggregate_category_counts db q =
     with_store db q (\<lambda>P ds. Inr (group_count (map category (filter P ds))))"

section \<open>Properties of filters and operations\<close>

lemma query_pred_append:
  "query_pred (a @ b) =
     (case query_pred a of
       Inl e \<Rightarrow> Inl e
     | Inr P \<Rightarrow> (case query_pred b of Inl e \<Rightarrow> Inl e | Inr Q \<Rightarrow> Inr (\<lambda>t. P t \<and> Q t)))"
proof (induction a rule: query_pred.induct)
  case 1
  then show ?case by (simp split: sum.splits)
next
  case (2 k v rest)
  then show ?case by (simp split: sum.splits)
qed

lemma spread_disjoint:
  "set (map fst a) \<inter> set (map fst b) = {} \<Longrightarrow> spread a b = a @ b"
proof -
  assume d: "set (map fst a) \<inter> set (map fst b) = {}"
  have "map (\<lambda>(k, v). (k, case map_of b k of Some v' \<Rightarrow> v' | None \<Rightarrow> v)) a = a"
  proof (rule map_idI)
    fix x assume "x \<in> set a"
    with d have "map_of b (fst x) = None"
      by (auto simp: map_of_eq_None_iff)
    then show "(case x of (k, v) \<Rightarrow> (k, case map_of b k of Some v' \<Rightarrow> v' | None \<Rightarrow> v)) = x"
      by (cases x) simp
  qed
  moreover have "filter (\<lambda>(k, v). k \<notin> set (map fst a)) b = b"
    using d by (force simp: filter_id_conv)
  ultimately show ?thesis by (simp add: spread_def)
qed

lemma spread_Nil_right [simp]: "spread a [] = a"
  by (simp add: spread_def)

lemma spread_Nil_left [simp]: "spread [] b = b"
  by (simp add: spread_def)

lemma with_store_ok:
  "reachable db \<Longrightarrow> query_pred q = Inr P \<Longrightarrow> with_store db q f = f P (docs db)"
  by (simp add: with_store_def)

lemma with_store_unreachable:
  "\<not> reachable db \<Longrightarrow> with_store db q f = Inl Store_unreachable"
  by (simp add: with_store_def)

lemma with_store_bad:
  "query_pred q = Inl e \<Longrightarrow> with_store db q f \<in> {Inl e, Inl Store_unreachable}"
  by (simp add: with_store_def)

lemmas store_op_defs =
  count_documents_def find_skip_limit_def aggregate_total_price_def aggregate_category_counts_def

lemma length_apply_limit:
  "0 < l \<Longrightarrow> length (apply_limit l xs) = min (nat l) (length xs)"
  by (simp add: apply_limit_def)


lemma subseq_apply_limit: "subseq (apply_limit l xs) xs"
  by (simp add: apply_limit_def subseq_take_prefix)

end
