(* ===== verification/Query.thy ===== *)
theory Query
  imports Store
begin

text \<open>
  The predicate builder of \<open>src/Backend/server.js\<close>: \<open>buildDateQuery(month)\<close> and
  the \<open>searchQuery\<close> object of \<open>GET /transactions\<close>. A month name becomes a month
  number as \<open>new Date(`${month} 1, 2000`).getMonth()\<close> computes it in V8: a word of
  letters whose first three letters name a month, in any case, is that month (the
  twelve English names among them). Other month parameters are outside the model: the
  code does not validate them and what the engine's date parser makes of them is
  engine-specific. The theory also states the specification's tagged predicate
  (\<open>All | Month | Search | And\<close>) and proves that the filter documents the code
  builds denote it.
\<close>

section \<open>Definitions\<close>

definition month_names :: "string list" where
  "month_names = [''January'', ''February'', ''March'', ''April'', ''May'', ''June'', ''July'',
     ''August'', ''September'', ''October'', ''November'', ''December'']"

definition is_ascii_letter :: "char \<Rightarrow> bool" where
  "is_ascii_letter c \<longleftrightarrow> (let n = (of_char c :: nat) in (65 \<le> n \<and> n \<le> 90) \<or> (97 \<le> n \<and> n \<le> 122))"

fun index_where :: "('a \<Rightarrow> bool) \<Rightarrow> 'a list \<Rightarrow> nat option" where
  "index_where P [] = None"
| "index_where P (x # xs) = (if P x then Some 0 else map_option Suc (index_where P xs))"

definition month_index :: "string \<Rightarrow> nat option" where
  "month_index m =
     (if 3 \<le> length m \<and> list_all is_ascii_letter m
      then index_where (\<lambda>name. map lower_char (take 3 name) = map lower_char (take 3 m)) month_names
      else None)"

text \<open>
  \<open>buildDateQuery\<close>: no filter for an absent or empty month, otherwise
  \<open>{ $expr: { $eq: [{ $month: "$dateOfSale" }, monthIndex + 1] } }\<close>.
\<close>

definition build_date_query :: "string option \<Rightarrow> store_error + query" where
  "build_date_query month =
     (case month of
       None \<Rightarrow> Inr []
     | Some m \<Rightarrow>
         if m = [] then Inr []
         else (case month_index m of
                 Some i \<Rightarrow> Inr [(K_expr, Month_eq (i + 1))]
               | None \<Rightarrow> Inl Outside_model))"

text \<open>
  \<open>searchQuery\<close>: no filter for an absent or empty text, otherwise the \<open>$or\<close> of a
  caseless regular expression on the title and on the description and of the price
  equal to \<open>parseFloat(searchText)\<close>.
\<close>

definition build_search_query :: "string option \<Rightarrow> query" where
  "build_search_query st =
     (case st of
       None \<Rightarrow> []
     | Some s \<Rightarrow>
         if s = [] then []
         else [(K_or, Any_of [(F_title, Regex_i s), (F_description, Regex_i s),
                              (F_price, Eq_num (parse_float s))])])"

subsection \<open>The specification's predicates\<close>

datatype filter_spec = All | Month nat | Search string | And filter_spec filter_spec

definition contains_ci :: "string \<Rightarrow> string \<Rightarrow> bool" where
  "contains_ci hay needle \<longleftrightarrow> sublist (map lower_char needle) (map lower_char hay)"

fun spec_holds :: "filter_spec \<Rightarrow> transaction \<Rightarrow> bool" where
  "spec_holds All t = True"
| "spec_holds (Month m) t = (utc_month (dateOfSale t) = m)"
| "spec_holds (Search s) t =
     (contains_ci (title t) s \<or> contains_ci (description t) s \<or> parse_float s = Fin (price t))"
| "spec_holds (And a b) t = (spec_holds a t \<and> spec_holds b t)"

definition month_spec :: "string option \<Rightarrow> filter_spec" where
  "month_spec month =
     (case month of
       None \<Rightarrow> All
     | Some m \<Rightarrow> if m = [] then All else (case month_index m of Some i \<Rightarrow> Month (i + 1) | None \<Rightarrow> All))"

definition search_spec :: "string option \<Rightarrow> filter_spec" where
  "search_spec st = (case st of None \<Rightarrow> All | Some s \<Rightarrow> if s = [] then All else Search s)"

definition plain_search :: "string option \<Rightarrow> bool" where
  "plain_search st = (case st of None \<Rightarrow> True | Some s \<Rightarrow> plain_pattern s)"

section \<open>Properties\<close>

lemma month_index_all_names: "map month_index month_names = map Some [0..<12]"
  by (simp add: month_index_def month_names_def is_ascii_letter_def lower_char_def upt_rec)

lemma month_index_names: "i < 12 \<Longrightarrow> month_index (month_names ! i) = Some i"
proof -
  assume i: "i < 12"
  have "length month_names = 12" by (simp add: month_names_def)
  then have "month_index (month_names ! i) = map month_index month_names ! i"
    using i by simp
  also have "\<dots> = Some i" using i by (simp only: month_index_all_names) simp
  finally show ?thesis .
qed

lemma date_query_pred:
  "build_date_query month = Inr dq \<Longrightarrow> query_pred dq = Inr (spec_holds (month_spec month))"
  by (auto simp: build_date_query_def month_spec_def fun_eq_iff
      split: option.splits if_splits)

lemma regex_pred_plain:
  "plain_pattern s \<Longrightarrow> regex_pred sel s = Inr (\<lambda>t. contains_ci (sel t) s)"
  by (simp add: regex_pred_def compile_regex_plain rx_search_plain contains_ci_def)

lemma search_query_pred:
  "plain_search st \<Longrightarrow> query_pred (build_search_query st) = Inr (spec_holds (search_spec st))"
  by (auto simp: build_search_query_def search_spec_def plain_search_def regex_pred_plain
      js_eq_def fun_eq_iff split: option.splits)

lemma search_date_keys_disjoint:
  "build_date_query month = Inr dq \<Longrightarrow>
     set (map fst (build_search_query st)) \<inter> set (map fst dq) = {}"
  by (auto simp: build_date_query_def build_search_query_def split: option.splits if_splits)

lemma listing_filter_pred:
  assumes "plain_search st" and "build_date_query month = Inr dq"
  shows "query_pred (spread (build_search_query st) dq) =
           Inr (spec_holds (And (search_spec st) (month_spec month)))"
proof -
  have "spread (build_search_query st) dq = build_search_query st @ dq"
    using search_date_keys_disjoint [OF assms(2)] by (rule spread_disjoint)
  then show ?thesis
    using search_query_pred [OF assms(1)] date_query_pred [OF assms(2)]
    by (simp add: query_pred_append fun_eq_iff)
qed



lemma month_index_abbrevs: "map (\<lambda>n. month_index (take 3 n)) month_names = map Some [0..<12]"
  by (simp add: month_index_def month_names_def is_ascii_letter_def lower_char_def upt_rec)

lemma month_abbreviation_accepted:
  assumes "i < 12"
  shows "build_date_query (Some (take 3 (month_names ! i))) = Inr [(K_expr, Month_eq (i + 1))]"
proof -
  have len: "length month_names = 12" by (simp add: month_names_def)
  have "month_index (take 3 (month_names ! i)) = map (\<lambda>n. month_index (take 3 n)) month_names ! i"
    using assms len by simp
  also have "\<dots> = Some i" using assms by (simp only: month_index_abbrevs) simp
  finally have m: "month_index (take 3 (month_names ! i)) = Some i" .
  have "take 3 (month_names ! i) \<noteq> []"
    using m by (auto simp: month_index_def)
  then show ?thesis using m by (simp add: build_date_query_def)
qed

lemma search_query_matching:
  assumes "s \<noteq> []" and "\<And>x. regex_match_i s x = Inr (R x)"
  shows "query_pred (build_search_query (Some s)) =
           Inr (\<lambda>t. R (title t) \<or> R (description t) \<or> parse_float s = Fin (price t))"
proof -
  obtain r where r: "compile_regex s = Inr r"
    using assms(2) [of "[]"] by (cases "compile_regex s") (auto simp: regex_match_i_def)
  have R: "R = rx_search r"
    using assms(2) r by (auto simp: regex_match_i_def fun_eq_iff)
  show ?thesis
    using assms(1) r by (auto simp: build_search_query_def regex_pred_def js_eq_def R fun_eq_iff)
qed

lemma parse_float_letter:
  assumes "is_ascii_alnum c" and "\<not> is_digit c" and "take 8 (c # r) \<noteq> ''Infinity''"
  shows "parse_float (c # r) = NaN"
proof -
  have c: "\<not> js_space c" "c \<noteq> CHR ''-''" "c \<noteq> CHR ''+''" "c \<noteq> CHR ''.''"
    using assms(1) by (auto simp: is_ascii_alnum_def js_space_def Let_def)
  then show ?thesis
    using assms(2,3) by (simp add: parse_float_def split_sign_def parse_unsigned_def split_fraction_def)
qed

end
