(* ===== verification/Listing.thy ===== *)
theory Listing
  imports Query
begin

text \<open>
  The paginated listing, \<open>GET /transactions\<close> of \<open>src/Backend/server.js\<close>: the
  request's \<open>page\<close>, \<open>perPage\<close>, \<open>searchText\<close> and \<open>month\<close> (integers and
  strings; an absent one is \<open>None\<close>), the defaults, the skip arithmetic, the count and
  the page read from the store, the 404 reply for an empty page and the 500 reply for
  a failed store operation. The reply type is shared with the aggregation handlers.
\<close>

section \<open>Definitions\<close>

datatype 'a reply = Ok 'a | Not_found | Server_error | Unmodelled_input

definition reply_of_error :: "store_error \<Rightarrow> 'a reply" where
  "reply_of_error e = (case e of Outside_model \<Rightarrow> Unmodelled_input | _ \<Rightarrow> Server_error)"

definition DEFAULT_PAGE :: int where
  "DEFAULT_PAGE = 1"

definition DEFAULT_PER_PAGE :: int where
  "DEFAULT_PER_PAGE = 10"

record list_params =
  q_page :: "int option"
  q_perPage :: "int option"
  q_searchText :: "string option"
  q_month :: "string option"

record page_body =
  transactions :: "transaction list"
  page_no :: int
  per_page :: int
  total_pages :: jsnum

text \<open>\<open>Math.ceil(total / perPage)\<close>: \<open>Infinity\<close> or \<open>NaN\<close> for a zero divisor.\<close>

definition js_ceil_div :: "nat \<Rightarrow> int \<Rightarrow> jsnum" where
  "js_ceil_div n p =
     (if p = 0 then (if n = 0 then NaN else PosInf)
      else Fin (of_int \<lceil>(of_int (int n) / of_int p :: rat)\<rceil>))"

text \<open>\<open>const { page = DEFAULT_PAGE, perPage = DEFAULT_PER_PAGE, ... } = req.query\<close>\<close>

definition req_page :: "list_params \<Rightarrow> int" where
  "req_page rq = (case q_page rq of None \<Rightarrow> DEFAULT_PAGE | Some p \<Rightarrow> p)"

definition req_perPage :: "list_params \<Rightarrow> int" where
  "req_perPage rq = (case q_perPage rq of None \<Rightarrow> DEFAULT_PER_PAGE | Some p \<Rightarrow> p)"

definition transactions_handler :: "store \<Rightarrow> list_params \<Rightarrow> page_body reply" where
  "transactions_handler db rq =
     (let page = req_page rq;
          perPage = req_perPage rq;
          skip = (page - 1) * perPage;
          searchQuery = build_search_query (q_searchText rq)
      in case build_date_query (q_month rq) of
           Inl e \<Rightarrow> reply_of_error e
         | Inr dateQuery \<Rightarrow>
             (let q = spread searchQuery dateQuery
              in case count_documents db q of
                   Inl e \<Rightarrow> reply_of_error e
                 | Inr totalTransactions \<Rightarrow>
                     (case find_skip_limit db q skip perPage of
                        Inl e \<Rightarrow> reply_of_error e
                      | Inr txs \<Rightarrow>
                          if txs = [] then Not_found
                          else Ok \<lparr>transactions = txs, page_no = page, per_page = perPage,
                                   total_pages = js_ceil_div totalTransactions perPage\<rparr>)))"

text \<open>The records the specification says the listing selects, in store order.\<close>

definition spec_matches :: "store \<Rightarrow> string option \<Rightarrow> string option \<Rightarrow> transaction list" where
  "spec_matches db st month = filter (spec_holds (And (search_spec st) (month_spec month))) (docs db)"

definition page_slice :: "int \<Rightarrow> int \<Rightarrow> 'a list \<Rightarrow> 'a list" where
  "page_slice page perPage xs = take (nat perPage) (drop (nat ((page - 1) * perPage)) xs)"

section \<open>Properties\<close>

lemma js_ceil_div_pos: "0 < p \<Longrightarrow> js_ceil_div n p = Fin (of_int ((int n + p - 1) div p))"
  using ceiling_divide_pos [of p "int n"] by (simp add: js_ceil_div_def)

lemma handler_query:
  assumes "plain_search st" and "build_date_query month = Inr dq" and "reachable db"
  shows "count_documents db (spread (build_search_query st) dq) = Inr (length (spec_matches db st month))"
    and "find_skip_limit db (spread (build_search_query st) dq) k l =
           (if k < 0 then Inl Bad_query else Inr (apply_limit l (drop (nat k) (spec_matches db st month))))"
  using listing_filter_pred [OF assms(1,2)] assms(3)
  by (simp_all add: count_documents_def find_skip_limit_def with_store_ok spec_matches_def)

lemma listing_reply:
  assumes "plain_search (q_searchText rq)" and "build_date_query (q_month rq) = Inr dq"
    and "reachable db" and "1 \<le> req_page rq" and "1 \<le> req_perPage rq"
  shows "transactions_handler db rq =
           (let M = spec_matches db (q_searchText rq) (q_month rq) in
            if page_slice (req_page rq) (req_perPage rq) M = [] then Not_found
            else Ok \<lparr>transactions = page_slice (req_page rq) (req_perPage rq) M, page_no = req_page rq,
                     per_page = req_perPage rq,
                     total_pages = Fin (of_int ((int (length M) + req_perPage rq - 1) div req_perPage rq))\<rparr>)"
proof -
  have "0 \<le> (req_page rq - 1) * req_perPage rq" using assms(4,5) by simp
  then have k: "\<not> (req_page rq - 1) * req_perPage rq < 0" by simp
  show ?thesis
    using assms handler_query [OF assms(1,2,3)] k
    by (simp add: transactions_handler_def Let_def js_ceil_div_pos page_slice_def apply_limit_def)
qed


lemma page_slice_length:
  "length (page_slice page perPage xs) = min (nat perPage) (length xs - nat ((page - 1) * perPage))"
  by (simp add: page_slice_def)


lemma listing_query_error:
  assumes "build_date_query (q_month rq) = Inr dq"
    and "query_pred (spread (build_search_query (q_searchText rq)) dq) = Inl e" and "e \<noteq> Outside_model"
  shows "transactions_handler db rq = Server_error"
  using assms by (cases e) (simp_all add: transactions_handler_def Let_def count_documents_def with_store_def reply_of_error_def)

lemma bad_regex_query:
  assumes "compile_regex s = Inl Rx_invalid" "build_date_query month = Inr dq"
  shows "query_pred (spread (build_search_query (Some s)) dq) = Inl Bad_query"
proof -
  have "s \<noteq> []" using assms(1) by (auto simp: compile_regex_def)
  then have "spread (build_search_query (Some s)) dq = build_search_query (Some s) @ dq"
    using search_date_keys_disjoint [OF assms(2)] by (intro spread_disjoint) simp
  then show ?thesis
    using assms(1) \<open>s \<noteq> []\<close> by (simp add: query_pred_append build_search_query_def regex_pred_def)
qed

text \<open>C25: A search text that is an invalid regular expression, such as an unbalanced parenthesis, makes GET /transactions reply 500.\<close>

theorem listing_bad_regex_500:
  assumes "q_searchText rq = Some s" "compile_regex s = Inl Rx_invalid"
    and "build_date_query (q_month rq) = Inr dq"
  shows "transactions_handler db rq = Server_error"
proof (cases "reachable db")
  case True
  have q: "query_pred (spread (build_search_query (q_searchText rq)) dq) = Inl Bad_query"
    using bad_regex_query [OF assms(2,3)] assms(1) by simp
  show ?thesis by (rule listing_query_error [OF assms(3) q]) simp
next
  case False
  then show ?thesis using assms(3)
    by (simp add: transactions_handler_def count_documents_def with_store_def reply_of_error_def)
qed

lemma listing_unreachable_500:
  "\<not> reachable db \<Longrightarrow> build_date_query (q_month rq) = Inr dq \<Longrightarrow> transactions_handler db rq = Server_error"
  by (simp add: transactions_handler_def count_documents_def with_store_def reply_of_error_def)

text \<open>C26: A page number below 1 makes the skip negative and GET /transactions reply 500.\<close>

theorem listing_page_below_one_500:
  assumes "plain_search (q_searchText rq)" and "build_date_query (q_month rq) = Inr dq"
    and "reachable db" and "req_page rq < 1" and "1 \<le> req_perPage rq"
  shows "transactions_handler db rq = Server_error"
proof -
  have "(req_page rq - 1) * req_perPage rq < 0" using assms(4,5) by (simp add: mult_neg_pos)
  then show ?thesis
    using handler_query [OF assms(1,2,3)] assms(2)
    by (simp add: transactions_handler_def Let_def reply_of_error_def)
qed



lemma page_reply_slice:
  assumes "plain_search (q_searchText rq)" and "build_date_query (q_month rq) = Inr dq"
    and "reachable db" and "1 \<le> p" and "1 \<le> perPage"
  shows "(case transactions_handler db (rq\<lparr>q_page := Some p, q_perPage := Some perPage\<rparr>) of
            Ok b \<Rightarrow> transactions b | _ \<Rightarrow> []) =
         page_slice p perPage (spec_matches db (q_searchText rq) (q_month rq))"
proof -
  let ?r = "rq\<lparr>q_page := Some p, q_perPage := Some perPage\<rparr>"
  have "plain_search (q_searchText ?r)" "build_date_query (q_month ?r) = Inr dq"
    "1 \<le> req_page ?r" "1 \<le> req_perPage ?r"
    using assms by (simp_all add: req_page_def req_perPage_def)
  from listing_reply [OF this(1,2) assms(3) this(3,4)] show ?thesis
    by (simp add: Let_def req_page_def req_perPage_def)
qed



text \<open>C4: Every page reply of GET /transactions, for any search text and month, holds a non-empty subsequence of the collection in store order, at most perPage records, and echoes the page and perPage it was asked for.\<close>

theorem listing_reply_wellformed:
  assumes "transactions_handler db rq = Ok b" and "1 \<le> req_perPage rq"
  shows "subseq (transactions b) (docs db) \<and> transactions b \<noteq> [] \<and>
         length (transactions b) \<le> nat (req_perPage rq) \<and>
         page_no b = req_page rq \<and> per_page b = req_perPage rq"
proof -
  obtain dq P n k where dq: "build_date_query (q_month rq) = Inr dq"
    and r: "reachable db" and P: "query_pred (spread (build_search_query (q_searchText rq)) dq) = Inr P"
    and k: "0 \<le> (req_page rq - 1) * req_perPage rq"
    and b: "b = \<lparr>transactions = apply_limit (req_perPage rq) (drop (nat ((req_page rq - 1) * req_perPage rq))
                                  (filter P (docs db))),
              page_no = req_page rq, per_page = req_perPage rq, total_pages = n\<rparr>"
    and ne: "transactions b \<noteq> []"
    using assms(1)
    by (auto simp: transactions_handler_def Let_def count_documents_def find_skip_limit_def with_store_def
        reply_of_error_def split: sum.splits if_splits store_error.splits)
  have "subseq (transactions b) (docs db)"
    unfolding b by (auto intro: subseq_order.order_trans [OF subseq_apply_limit]
        subseq_order.order_trans [OF subseq_drop_suffix] subseq_filter_left)
  moreover have "length (transactions b) \<le> nat (req_perPage rq)"
    using assms(2) by (simp add: b apply_limit_def)
  ultimately show ?thesis using ne by (simp add: b)
qed

end
