(* ===== verification/Aggregation.thy ===== *)
theory Aggregation
  imports Listing
begin

text \<open>
  The three aggregation handlers of \<open>src/Backend/server.js\<close>, each filtered by the
  month only: \<open>GET /statistics\<close> (one \<open>$sum\<close> pipeline and two \<open>countDocuments\<close> on
  the \<open>sold\<close> flag), \<open>GET /barchart\<close> (ten \<open>countDocuments\<close> over the fixed
  \<open>priceRanges\<close>, joined by \<open>Promise.all\<close>) and \<open>GET /piechart\<close> (a \<open>$group\<close> by
  category). The theory proves what each reply holds in terms of the records the
  month selects, the tiling of the price axis by the buckets, and that the category
  breakdown is the grouping the specification asks for, in whatever order the store
  returns it.
\<close>

section \<open>Statistics\<close>

record stats_body =
  totalSaleAmount :: rat
  totalSoldItems :: nat
  totalNotSoldItems :: nat

definition sold_query :: "query \<Rightarrow> bool \<Rightarrow> query" where
  "sold_query dateQuery b = spread dateQuery [(K_field F_sold, Is (Eq_bool b))]"

definition statistics_handler :: "store \<Rightarrow> string option \<Rightarrow> stats_body reply" where
  "statistics_handler db month =
     (case build_date_query month of
       Inl e \<Rightarrow> reply_of_error e
     | Inr dateQuery \<Rightarrow>
         (case aggregate_total_price db dateQuery of
           Inl e \<Rightarrow> reply_of_error e
         | Inr agg \<Rightarrow>
             (case count_documents db (sold_query dateQuery True) of
               Inl e \<Rightarrow> reply_of_error e
             | Inr soldN \<Rightarrow>
                 (case count_documents db (sold_query dateQuery False) of
                   Inl e \<Rightarrow> reply_of_error e
                 | Inr notSoldN \<Rightarrow>
                     Ok \<lparr>totalSaleAmount = (if 0 < length agg then hd agg else 0),
                         totalSoldItems = soldN, totalNotSoldItems = notSoldN\<rparr>))))"

section \<open>Bar chart\<close>

text \<open>
  \<open>priceRanges\<close>: a pair \<open>[min, max]\<close>, \<open>None\<close> standing for \<open>Infinity\<close>.
\<close>

definition priceRanges :: "(nat \<times> nat option) list" where
  "priceRanges = [(0, Some 100), (101, Some 200), (201, Some 300), (301, Some 400), (401, Some 500),
     (501, Some 600), (601, Some 700), (701, Some 800), (801, Some 900), (901, None)]"

text \<open>\<open>max === Infinity ? max : max + 1\<close>, the exclusive bound of the bucket.\<close>

definition upper_bound :: "nat option \<Rightarrow> jsnum" where
  "upper_bound mx = (case mx of None \<Rightarrow> PosInf | Some m \<Rightarrow> Fin (of_nat m + 1))"

definition bucket_query :: "query \<Rightarrow> nat \<Rightarrow> nat option \<Rightarrow> query" where
  "bucket_query dateQuery mn mx = spread dateQuery [(K_field F_price, Is (Gte_lt (of_nat mn) (upper_bound mx)))]"

text \<open>\<open>`${min}-${max === Infinity ? 'above' : max}`\<close>\<close>

definition range_label :: "nat \<Rightarrow> nat option \<Rightarrow> string" where
  "range_label mn mx = show_nat mn @ ''-'' @ (case mx of None \<Rightarrow> ''above'' | Some m \<Rightarrow> show_nat m)"

record bar =
  bar_range :: string
  bar_count :: nat

definition bar_of_range :: "store \<Rightarrow> query \<Rightarrow> nat \<times> nat option \<Rightarrow> store_error + bar" where
  "bar_of_range db dateQuery r =
     (case r of (mn, mx) \<Rightarrow>
        (case count_documents db (bucket_query dateQuery mn mx) of
          Inl e \<Rightarrow> Inl e
        | Inr c \<Rightarrow> Inr \<lparr>bar_range = range_label mn mx, bar_count = c\<rparr>))"

text \<open>
  \<open>Promise.all\<close>: the results in the order of the promises, or a rejection. The
  model takes the first rejection in list order; every rejection the bucket counts can
  produce is the same store failure, so the reply does not depend on which one wins.
\<close>

fun promise_all :: "('e + 'a) list \<Rightarrow> 'e + 'a list" where
  "promise_all [] = Inr []"
| "promise_all (x # xs) =
     (case x of
       Inl e \<Rightarrow> Inl e
     | Inr a \<Rightarrow> (case promise_all xs of Inl e \<Rightarrow> Inl e | Inr as \<Rightarrow> Inr (a # as)))"

definition barchart_handler :: "store \<Rightarrow> string option \<Rightarrow> bar list reply" where
  "barchart_handler db month =
     (case build_date_query month of
       Inl e \<Rightarrow> reply_of_error e
     | Inr dateQuery \<Rightarrow>
         (case promise_all (map (bar_of_range db dateQuery) priceRanges) of
           Inl e \<Rightarrow> reply_of_error e
         | Inr bars \<Rightarrow> Ok bars))"

section \<open>Pie chart\<close>

record pie_slice =
  pie_category :: string
  pie_count :: nat

definition piechart_handler :: "store \<Rightarrow> string option \<Rightarrow> pie_slice list reply" where
  "piechart_handler db month =
     (case build_date_query month of
       Inl e \<Rightarrow> reply_of_error e
     | Inr dateQuery \<Rightarrow>
         (case aggregate_category_counts db dateQuery of
           Inl e \<Rightarrow> reply_of_error e
         | Inr gs \<Rightarrow> Ok (map (\<lambda>(c, n). \<lparr>pie_category = c, pie_count = n\<rparr>) gs)))"

section \<open>Specifications\<close>

text \<open>The records the month selects, in store order.\<close>

definition month_matches :: "store \<Rightarrow> string option \<Rightarrow> transaction list" where
  "month_matches db month = filter (spec_holds (month_spec month)) (docs db)"

text \<open>A price lies in a bucket as the bucket's filter \<open>{ $gte: min, $lt: ... }\<close> reads it.\<close>

definition in_bucket :: "nat \<times> nat option \<Rightarrow> rat \<Rightarrow> bool" where
  "in_bucket r p = (case r of (mn, mx) \<Rightarrow> of_nat mn \<le> p \<and> js_lt p (upper_bound mx))"

text \<open>
  Consecutive buckets: each closed bucket \<open>[a, m]\<close> is followed by one starting at
  \<open>m + 1\<close>, and the last is open-ended.
\<close>

fun tiles :: "(nat \<times> nat option) list \<Rightarrow> bool" where
  "tiles [] = False"
| "tiles [(a, mx)] = (mx = None)"
| "tiles ((a, Some m) # (b, mx) # rest) = (a \<le> m \<and> b = m + 1 \<and> tiles ((b, mx) # rest))"
| "tiles ((a, None) # _ # _) = False"

text \<open>
  The category breakdown the specification asks for: one pair per category present,
  no category twice, each with its number of occurrences.
\<close>

definition is_grouping :: "string list \<Rightarrow> (string \<times> nat) list \<Rightarrow> bool" where
  "is_grouping xs gs \<longleftrightarrow>
     distinct (map fst gs) \<and> set (map fst gs) = set xs \<and> list_all (\<lambda>(c, n). n = count_list xs c) gs"

text \<open>
  The bucket the specification documents for an integer price: the closed intervals
  \<open>[0,100], [101,200], ..., [801,900]\<close> and \<open>[901,\<infinity>)\<close>.
\<close>

definition spec_bucket :: "nat \<Rightarrow> nat \<times> nat option" where
  "spec_bucket n =
     (if n \<le> 100 then (0, Some 100)
      else if 901 \<le> n then (901, None)
      else ((n - 1) div 100 * 100 + 1, Some ((n - 1) div 100 * 100 + 100)))"

section \<open>Store operations under a month filter\<close>

lemma date_query_keys:
  "build_date_query month = Inr dq \<Longrightarrow> set (map fst dq) \<subseteq> {K_expr}"
  by (auto simp: build_date_query_def split: option.splits if_splits)

lemma field_query_pred:
  assumes "build_date_query month = Inr dq"
  shows "query_pred (spread dq [(K_field f, Is l)]) =
           (case leaf_pred f l of Inl e \<Rightarrow> Inl e | Inr P \<Rightarrow> Inr (\<lambda>t. spec_holds (month_spec month) t \<and> P t))"
proof -
  have "spread dq [(K_field f, Is l)] = dq @ [(K_field f, Is l)]"
    using date_query_keys [OF assms] by (intro spread_disjoint) auto
  then show ?thesis
    using date_query_pred [OF assms] by (simp add: query_pred_append split: sum.splits)
qed

lemma count_field_query:
  assumes "reachable db" "build_date_query month = Inr dq" "leaf_pred f l = Inr P"
  shows "count_documents db (spread dq [(K_field f, Is l)]) = Inr (length (filter P (month_matches db month)))"
  using field_query_pred [OF assms(2), of f l] assms(1,3)
  by (simp add: count_documents_def with_store_ok month_matches_def)

lemma month_query_ops:
  assumes "reachable db" "build_date_query month = Inr dq"
  shows "aggregate_total_price db dq =
           Inr (if month_matches db month = [] then [] else [sum_list (map price (month_matches db month))])"
    and "aggregate_category_counts db dq = Inr (group_count (map category (month_matches db month)))"
  using date_query_pred [OF assms(2)] assms(1)
  by (simp_all add: aggregate_total_price_def aggregate_category_counts_def with_store_ok month_matches_def)

lemma statistics_handler_ok:
  assumes "reachable db" "build_date_query month = Inr dq"
  shows "statistics_handler db month =
           Ok \<lparr>totalSaleAmount = sum_list (map price (month_matches db month)),
               totalSoldItems = length (filter sold (month_matches db month)),
               totalNotSoldItems = length (filter (\<lambda>t. \<not> sold t) (month_matches db month))\<rparr>"
proof -
  have "count_documents db (sold_query dq b) = Inr (length (filter (\<lambda>t. sold t = b) (month_matches db month)))" for b
    unfolding sold_query_def by (rule count_field_query [OF assms]) simp
  then show ?thesis
    using assms month_query_ops(1) [OF assms]
    by (simp add: statistics_handler_def)
qed



lemma bucket_leaf_pred:
  "leaf_pred F_price (Gte_lt (of_nat mn) (upper_bound mx)) = Inr (\<lambda>t. in_bucket (mn, mx) (price t))"
  by (simp add: in_bucket_def)

lemma promise_all_map_Inr:
  "(\<And>x. x \<in> set xs \<Longrightarrow> f x = Inr (g x)) \<Longrightarrow> promise_all (map f xs) = Inr (map g xs)"
  by (induction xs) simp_all

lemma promise_all_map_Inl:
  "(\<And>x. x \<in> set xs \<Longrightarrow> f x = Inl e) \<Longrightarrow> xs \<noteq> [] \<Longrightarrow> promise_all (map f xs) = Inl e"
  by (cases xs) simp_all

lemma in_bucket_Some: "in_bucket (a, Some m) p \<longleftrightarrow> of_nat a \<le> p \<and> p < of_nat m + 1"
  by (simp add: in_bucket_def upper_bound_def js_lt_def)

lemma in_bucket_None: "in_bucket (a, None) p \<longleftrightarrow> of_nat a \<le> p"
  by (simp add: in_bucket_def upper_bound_def js_lt_def)

lemma tiles_one_bucket:
  "tiles ((a, mx) # rs) \<Longrightarrow>
     length (filter (\<lambda>r. in_bucket r p) ((a, mx) # rs)) = (if of_nat a \<le> p then 1 else 0)"
proof (induction rs arbitrary: a mx)
  case Nil
  then show ?case by (simp add: in_bucket_None)
next
  case (Cons r rest)
  obtain b my where r: "r = (b, my)" by (cases r)
  from Cons.prems r obtain m where mx: "mx = Some m" and b: "b = m + 1" and am: "a \<le> m"
    and t: "tiles ((b, my) # rest)"
    by (cases mx) auto
  have "of_nat a \<le> (of_nat m + 1 :: rat)" using am by simp
  then show ?case
    using Cons.IH [OF t] r mx b by (auto simp: in_bucket_Some)
qed

lemma tiles_priceRanges: "tiles priceRanges"
  by (simp add: priceRanges_def)

lemma priceRanges_one_bucket:
  "length (filter (\<lambda>r. in_bucket r p) priceRanges) = (if 0 \<le> p then 1 else 0)"
  using tiles_one_bucket [of 0 "Some 100" "tl priceRanges" p] tiles_priceRanges
  by (simp add: priceRanges_def)

lemma range_labels:
  "map (\<lambda>(mn, mx). range_label mn mx) priceRanges =
     [''0-100'', ''101-200'', ''201-300'', ''301-400'', ''401-500'',
      ''501-600'', ''601-700'', ''701-800'', ''801-900'', ''901-above'']"
  by (simp add: priceRanges_def range_label_def show_nat.simps char_of_def bit_simps)


lemma bar_of_range_ok:
  assumes "reachable db" "build_date_query month = Inr dq"
  shows "bar_of_range db dq r =
           Inr \<lparr>bar_range = range_label (fst r) (snd r),
                bar_count = length (filter (\<lambda>t. in_bucket r (price t)) (month_matches db month))\<rparr>"
proof (cases r)
  case (Pair mn mx)
  then show ?thesis
    unfolding bar_of_range_def bucket_query_def
    by (simp add: count_field_query [OF assms bucket_leaf_pred])
qed

lemma barchart_handler_ok:
  assumes "reachable db" "build_date_query month = Inr dq"
  shows "barchart_handler db month =
           Ok (map (\<lambda>r. \<lparr>bar_range = range_label (fst r) (snd r),
                         bar_count = length (filter (\<lambda>t. in_bucket r (price t)) (month_matches db month))\<rparr>)
                   priceRanges)"
  using assms by (simp add: barchart_handler_def promise_all_map_Inr [OF bar_of_range_ok [OF assms]])

lemma bar_labels:
  "map (\<lambda>r. range_label (fst r) (snd r)) priceRanges =
     [''0-100'', ''101-200'', ''201-300'', ''301-400'', ''401-500'',
      ''501-600'', ''601-700'', ''701-800'', ''801-900'', ''901-above'']"
  using range_labels by (simp add: case_prod_beta')

lemma barchart_counts_sum:
  "sum_list (map (\<lambda>r. length (filter (\<lambda>t. in_bucket r (price t)) xs)) priceRanges) =
     length (filter (\<lambda>t. 0 \<le> price t) xs)"
  by (simp add: sum_list_length_filter_swap priceRanges_one_bucket sum_list_indicator_length)

lemma count_list_filter_neq:
  "c' \<noteq> c \<Longrightarrow> count_list (filter (\<lambda>x. x \<noteq> c) cs) c' = count_list cs c'"
  by (induction cs) auto

lemma group_count_fst: "set (map fst (group_count xs)) = set xs"
  by (induction xs rule: group_count.induct) auto

lemma group_count_grouping: "is_grouping xs (group_count xs)"
proof (induction xs rule: group_count.induct)
  case 1
  then show ?case by (simp add: is_grouping_def)
next
  case (2 c cs)
  let ?rest = "filter (\<lambda>x. x \<noteq> c) cs"
  have g: "is_grouping ?rest (group_count ?rest)" by (rule "2.IH")
  have c: "c \<notin> set (map fst (group_count ?rest))" by (simp only: group_count_fst) simp
  have d: "distinct (map fst ((c, Suc (count_list cs c)) # group_count ?rest))"
    using g c by (simp add: is_grouping_def)
  have s: "set (map fst ((c, Suc (count_list cs c)) # group_count ?rest)) = set (c # cs)"
    using group_count_fst [of ?rest] by auto
  have "list_all (\<lambda>(c', n). n = count_list (c # cs) c') (group_count ?rest)"
    unfolding list_all_iff
  proof (intro ballI, clarify)
    fix c' n assume m: "(c', n) \<in> set (group_count ?rest)"
    then have "c' \<noteq> c" using c by force
    moreover have "n = count_list ?rest c'" using g m by (auto simp: is_grouping_def list_all_iff)
    ultimately show "n = count_list (c # cs) c'" by (simp add: count_list_filter_neq)
  qed
  then have l: "list_all (\<lambda>(c', n). n = count_list (c # cs) c') ((c, Suc (count_list cs c)) # group_count ?rest)"
    by simp
  from d s l show ?case by (simp add: is_grouping_def)
qed

lemma grouping_set:
  "is_grouping xs gs \<Longrightarrow> set gs = (\<lambda>c. (c, count_list xs c)) ` set xs"
  unfolding is_grouping_def list_all_iff by (force simp: image_iff)

lemma grouping_mset_unique:
  assumes "is_grouping xs gs" "is_grouping xs hs"
  shows "mset gs = mset hs"
proof -
  have "distinct gs" "distinct hs"
    using assms by (auto simp: is_grouping_def distinct_map)
  moreover have "set gs = set hs" using assms by (simp add: grouping_set)
  ultimately show ?thesis by (simp add: set_eq_iff_mset_eq_distinct)
qed

lemma group_count_sum: "sum_list (map snd (group_count xs)) = length xs"
proof (induction xs rule: group_count.induct)
  case (2 c cs)
  have "count_list cs c + length (filter (\<lambda>x. x \<noteq> c) cs) = length cs"
    using sum_length_filter_compl [of "\<lambda>x. x = c" cs] count_list_filter_length [of id cs c]
    by simp
  with 2 show ?case by simp
qed simp

lemma grouping_sum:
  assumes "is_grouping xs gs"
  shows "sum_list (map snd gs) = length xs"
proof -
  have "mset gs = mset (group_count xs)"
    by (rule grouping_mset_unique [OF assms group_count_grouping])
  then have "sum_list (map snd gs) = sum_list (map snd (group_count xs))"
    by (metis mset_map sum_mset_sum_list)
  then show ?thesis by (simp add: group_count_sum)
qed

lemma grouping_pos:
  assumes "is_grouping xs gs" "(c, n) \<in> set gs"
  shows "0 < n"
proof -
  have "c \<in> set xs" "n = count_list xs c" using assms by (auto simp: grouping_set)
  then show ?thesis using count_list_0_iff [of xs c] by simp
qed

section \<open>The buckets of an integer price\<close>

lemma filter_single:
  "distinct xs \<Longrightarrow> length (filter P xs) = 1 \<Longrightarrow> x \<in> set xs \<Longrightarrow> P x \<Longrightarrow> filter P xs = [x]"
proof -
  assume d: "distinct xs" and l: "length (filter P xs) = 1" and x: "x \<in> set xs" "P x"
  then obtain y where y: "filter P xs = [y]" by (auto simp: length_Suc_conv)
  have "x \<in> set (filter P xs)" using x by simp
  with y show ?thesis by simp
qed

lemma spec_bucket_in_ranges: "spec_bucket n \<in> set priceRanges"
proof -
  consider "n \<le> 100" | "901 \<le> n" | "100 < n" "n < 901" by linarith
  then show ?thesis
  proof cases
    case 3
    then have "1 \<le> (n - 1) div 100" "(n - 1) div 100 < 9" by auto
    then have "(n - 1) div 100 \<in> {1, 2, 3, 4, 5, 6, 7, 8}" by auto
    with 3 show ?thesis by (auto simp: spec_bucket_def priceRanges_def)
  qed (simp_all add: spec_bucket_def priceRanges_def)
qed

lemma spec_bucket_contains: "in_bucket (spec_bucket n) (of_nat n)"
proof (cases "n \<le> 100 \<or> 901 \<le> n")
  case True
  then show ?thesis by (auto simp: spec_bucket_def in_bucket_Some in_bucket_None)
next
  case False
  define k where "k = (n - 1) div 100"
  have "k * 100 \<le> n - 1" by (simp add: k_def)
  then have lo: "k * 100 + 1 \<le> n" using False by linarith
  have "n - 1 = k * 100 + (n - 1) mod 100" by (simp add: k_def)
  moreover have "(n - 1) mod 100 < 100" by simp
  ultimately have hi: "n < k * 100 + 100 + 1" using False by linarith
  have "(of_nat (k * 100 + 1) :: rat) \<le> of_nat n" by (simp only: of_nat_le_iff lo)
  moreover have "(of_nat n :: rat) < of_nat (k * 100 + 100 + 1)" by (simp only: of_nat_less_iff hi)
  ultimately have "in_bucket (k * 100 + 1, Some (k * 100 + 100)) (of_nat n)"
    by (simp add: in_bucket_Some)
  then show ?thesis using False by (simp add: spec_bucket_def k_def)
qed

lemma distinct_priceRanges: "distinct priceRanges"
  by (simp add: priceRanges_def)

lemma buckets_of_nat: "filter (\<lambda>r. in_bucket r (of_nat n)) priceRanges = [spec_bucket n]"
proof (rule filter_single [OF distinct_priceRanges])
  show "length (filter (\<lambda>r. in_bucket r (of_nat n)) priceRanges) = 1"
    by (simp add: priceRanges_one_bucket)
qed (rule spec_bucket_in_ranges, rule spec_bucket_contains)

lemma piechart_slices:
  assumes "reachable db" "build_date_query month = Inr dq" "piechart_handler db month = Ok slices"
  shows "map (\<lambda>s. (pie_category s, pie_count s)) slices = group_count (map category (month_matches db month))"
  using month_query_ops(2) [OF assms(1,2)] assms(2,3)
  by (auto simp: piechart_handler_def comp_def case_prod_beta')

section \<open>Properties of the handlers\<close>

text \<open>C6: On a reachable store and an accepted month, GET /statistics replies with the sum of the prices, the number of sold and the number of unsold records the month selects, and the two counts add up to the number of selected records.\<close>

theorem statistics_reply:
  assumes "reachable db" "build_date_query month = Inr dq"
  shows "\<exists>b. statistics_handler db month = Ok b \<and>
           totalSaleAmount b = sum_list (map price (month_matches db month)) \<and>
           totalSoldItems b = length (filter sold (month_matches db month)) \<and>
           totalNotSoldItems b = length (filter (\<lambda>t. \<not> sold t) (month_matches db month)) \<and>
           totalSoldItems b + totalNotSoldItems b = length (month_matches db month)"
  using statistics_handler_ok [OF assms] sum_length_filter_compl [of sold "month_matches db month"]
  by simp

text \<open>C7: On a reachable store and an accepted month, GET /barchart replies with ten bars in the fixed order 0-100, 101-200, ..., 801-900, 901-above, each counting the selected records whose price satisfies the bucket filter.\<close>

theorem barchart_reply:
  assumes "reachable db" "build_date_query month = Inr dq"
  shows "\<exists>bars. barchart_handler db month = Ok bars \<and>
           map bar_range bars =
             [''0-100'', ''101-200'', ''201-300'', ''301-400'', ''401-500'',
              ''501-600'', ''601-700'', ''701-800'', ''801-900'', ''901-above''] \<and>
           map bar_count bars =
             map (\<lambda>r. length (filter (\<lambda>t. in_bucket r (price t)) (month_matches db month))) priceRanges"
  using barchart_handler_ok [OF assms] bar_labels by (simp add: comp_def)

text \<open>C8: The bar counts of a GET /barchart reply add up to the number of selected records with a non-negative price: the buckets tile [0, infinity) without gap or overlap, and a negative price is in no bucket.\<close>

theorem barchart_sum_nonneg:
  assumes "reachable db" "build_date_query month = Inr dq" "barchart_handler db month = Ok bars"
  shows "sum_list (map bar_count bars) = length (filter (\<lambda>t. 0 \<le> price t) (month_matches db month))"
  using barchart_handler_ok [OF assms(1,2)] assms(3) by (simp add: comp_def barchart_counts_sum)

lemma in_bucket_floor:
  assumes "in_bucket r (of_nat (nat \<lfloor>p\<rfloor>))" and "0 \<le> p"
  shows "in_bucket r p"
proof -
  obtain a mx where r: "r = (a, mx)" by (cases r)
  have fl: "of_int \<lfloor>p\<rfloor> \<le> p" "p < of_int \<lfloor>p\<rfloor> + 1" using floor_correct [of p] by linarith+
  have n: "(of_nat (nat \<lfloor>p\<rfloor>) :: rat) = of_int \<lfloor>p\<rfloor>" using assms(2) by simp
  show ?thesis
  proof (cases mx)
    case None
    then have "of_nat a \<le> (of_int \<lfloor>p\<rfloor> :: rat)" using assms(1) r n by (simp add: in_bucket_None)
    then have "of_nat a \<le> p" using fl(1) by linarith
    then show ?thesis using None r by (simp add: in_bucket_None)
  next
    case (Some m)
    then have "of_nat a \<le> (of_int \<lfloor>p\<rfloor> :: rat)" "(of_int \<lfloor>p\<rfloor> :: rat) < of_nat m + 1"
      using assms(1) r n by (simp_all add: in_bucket_Some)
    then have "\<lfloor>p\<rfloor> \<le> int m" by linarith
    then have "p < of_nat m + 1" using fl by linarith
    moreover have "of_nat a \<le> p" using fl(1) \<open>of_nat a \<le> (of_int \<lfloor>p\<rfloor> :: rat)\<close> by linarith
    ultimately show ?thesis using Some r by (simp add: in_bucket_Some)
  qed
qed

text \<open>C9: Every non-negative price p lies in exactly one bucket, the one the specification documents for the integer part of p: 0..100 in 0-100, 101..200 in 101-200, ..., 901 and above in 901-above, so a fractional price such as 100.5 is counted in 0-100.\<close>

theorem bucket_of_price:
  assumes "0 \<le> p"
  shows "filter (\<lambda>r. in_bucket r p) priceRanges = [spec_bucket (nat \<lfloor>p\<rfloor>)]"
proof (rule filter_single [OF distinct_priceRanges])
  show "length (filter (\<lambda>r. in_bucket r p) priceRanges) = 1"
    using assms by (simp add: priceRanges_one_bucket)
qed (rule spec_bucket_in_ranges, rule in_bucket_floor [OF spec_bucket_contains assms])

lemma piechart_counts:
  assumes "reachable db" "build_date_query month = Inr dq" "piechart_handler db month = Ok slices"
  shows "sum_list (map pie_count slices) = length (month_matches db month) \<and>
         list_all (\<lambda>s. 0 < pie_count s) slices"
proof -
  let ?xs = "map category (month_matches db month)"
  have s: "map (\<lambda>s. (pie_category s, pie_count s)) slices = group_count ?xs"
    using piechart_slices [OF assms] .
  have g: "is_grouping ?xs (group_count ?xs)" by (rule group_count_grouping)
  have "sum_list (map pie_count slices) = sum_list (map snd (group_count ?xs))"
    by (simp flip: s add: comp_def)
  moreover have "list_all (\<lambda>s. 0 < pie_count s) slices"
    unfolding list_all_iff
  proof
    fix x assume "x \<in> set slices"
    then have "(pie_category x, pie_count x) \<in> set (group_count ?xs)" by (simp flip: s)
    then show "0 < pie_count x" by (rule grouping_pos [OF g])
  qed
  ultimately show ?thesis using grouping_sum [OF g] by simp
qed

text \<open>C10: On a reachable store and an accepted month, GET /piechart replies with one (category, count) pair per category present among the selected records, no category twice, each with its number of records; the counts add up to the number of selected records and none is zero.\<close>

theorem piechart_reply:
  assumes "reachable db" "build_date_query month = Inr dq"
  shows "\<exists>slices. piechart_handler db month = Ok slices \<and>
           is_grouping (map category (month_matches db month))
             (map (\<lambda>s. (pie_category s, pie_count s)) slices) \<and>
           sum_list (map pie_count slices) = length (month_matches db month) \<and>
           list_all (\<lambda>s. 0 < pie_count s) slices"
proof -
  obtain slices where ok: "piechart_handler db month = Ok slices"
    using month_query_ops(2) [OF assms] assms(2) by (simp add: piechart_handler_def)
  have "map (\<lambda>s. (pie_category s, pie_count s)) slices = group_count (map category (month_matches db month))"
    by (rule piechart_slices [OF assms ok])
  then have "is_grouping (map category (month_matches db month)) (map (\<lambda>s. (pie_category s, pie_count s)) slices)"
    by (simp add: group_count_grouping)
  then show ?thesis using ok piechart_counts [OF assms ok] by blast
qed

lemma piechart_unique:
  assumes "reachable db" "build_date_query month = Inr dq" "piechart_handler db month = Ok slices"
    and "is_grouping (map category (month_matches db month)) gs"
  shows "mset (map (\<lambda>s. (pie_category s, pie_count s)) slices) = mset gs"
  using piechart_slices [OF assms(1-3)] grouping_mset_unique [OF group_count_grouping assms(4)] by simp

text \<open>C28: When the store cannot be reached all four handlers, listing, statistics, bar chart and pie chart, reply 500.\<close>

theorem handlers_unreachable:
  assumes "\<not> reachable db" and "build_date_query month = Inr dq" and "q_month rq = month"
  shows "transactions_handler db rq = Server_error \<and> statistics_handler db month = Server_error \<and>
         barchart_handler db month = Server_error \<and> piechart_handler db month = Server_error"
proof -
  have "transactions_handler db rq = Server_error"
    using assms by (intro listing_unreachable_500) simp_all
  moreover have "statistics_handler db month = Server_error \<and> barchart_handler db month = Server_error \<and>
      piechart_handler db month = Server_error"
    using assms(1,2)
    by (simp add: statistics_handler_def barchart_handler_def piechart_handler_def aggregate_total_price_def
        aggregate_category_counts_def with_store_def reply_of_error_def priceRanges_def bar_of_range_def
        count_documents_def)
  ultimately show ?thesis by blast
qed
end
