(* ===== verification/Frontend.thy ===== *)
theory Frontend
  imports Aggregation
begin

text \<open>
  The dashboard client, \<open>src/Frontend/src/App.jsx\<close>: its React state as a record,
  the requests its first \<open>useEffect\<close> sends whenever the month or the page changes,
  the client-side search of its second \<open>useEffect\<close>, the event handlers bound in
  the JSX, and the arrival of each response, in any order, as a step of its own. A
  response is the reply of the server model (theories \<open>Listing\<close> and
  \<open>Aggregation\<close>) to the request's parameters on a read-only store. Reachable
  states are an inductive set; the invariants are proved by rule induction over it.
\<close>

section \<open>State, requests and events\<close>

definition months :: "string list" where
  "months = [''January'', ''February'', ''March'', ''April'', ''May'', ''June'', ''July'', ''August'',
     ''September'', ''October'', ''November'', ''December'']"

text \<open>The four \<open>axios.get\<close> requests with the month and page they were sent with.\<close>

datatype request =
  Req_transactions string int
| Req_statistics string
| Req_barchart string
| Req_piechart string

text \<open>
  The component's \<open>useState\<close> hooks. \<open>statistics\<close> starts as \<open>{}\<close>, here
  \<open>None\<close>; the two chart states keep their labels and data arrays (the colours are
  constants). \<open>st_pending\<close> holds the requests sent and not yet answered.
\<close>

record app_state =
  st_transactions :: "transaction list"
  st_filtered :: "transaction list"
  st_statistics :: "stats_body option"
  st_bar_labels :: "string list"
  st_bar_data :: "nat list"
  st_pie_labels :: "string list"
  st_pie_data :: "nat list"
  st_month :: string
  st_search :: string
  st_page :: int
  st_totalPages :: jsnum
  st_hoveredImage :: "string option"
  st_showEnlarged :: bool
  st_pending :: "request list"

datatype app_event =
  Search_input string
| Clear_search
| Select_month string
| Prev_click
| Next_click
| Mouse_enter string
| Image_click
| Deliver nat

section \<open>Client-side search\<close>

text \<open>\<open>toLowerCase\<close> and \<open>includes\<close>; case mapping is modelled on ASCII letters.\<close>

definition to_lower :: "string \<Rightarrow> string" where
  "to_lower s = map lower_char s"

definition js_includes :: "string \<Rightarrow> string \<Rightarrow> bool" where
  "js_includes hay needle \<longleftrightarrow> sublist needle hay"

text \<open>
  \<open>Number.prototype.toString\<close> on a price: sign, integer digits, and the fraction
  digits when the price is not an integer. A price read from decimal data has a
  terminating expansion; the model writes at most twenty fraction digits and does not
  model the exponent notation JavaScript uses below \<open>1e-6\<close> and from \<open>1e21\<close>.
\<close>

fun frac_digits :: "nat \<Rightarrow> rat \<Rightarrow> string" where
  "frac_digits 0 q = []"
| "frac_digits (Suc n) q =
     (if q = 0 then [] else char_of (48 + nat \<lfloor>q * 10\<rfloor>) # frac_digits n (q * 10 - of_int \<lfloor>q * 10\<rfloor>))"

definition number_to_string :: "rat \<Rightarrow> string" where
  "number_to_string p =
     (let a = \<bar>p\<bar>; i = \<lfloor>a\<rfloor>; f = a - of_int i
      in (if p < 0 then ''-'' else []) @ show_nat (nat i) @ (if f = 0 then [] else CHR ''.'' # frac_digits 20 f))"

definition client_match :: "string \<Rightarrow> transaction \<Rightarrow> bool" where
  "client_match search t \<longleftrightarrow>
     js_includes (to_lower (title t)) (to_lower search) \<or>
     js_includes (to_lower (description t)) (to_lower search) \<or>
     js_includes (number_to_string (price t)) search"

definition client_filter :: "string \<Rightarrow> transaction list \<Rightarrow> transaction list" where
  "client_filter search ts = filter (client_match search) ts"

section \<open>Effects and handlers\<close>

text \<open>The second effect, run when \<open>search\<close> or \<open>transactions\<close> changes.\<close>

definition filter_effect :: "app_state \<Rightarrow> app_state" where
  "filter_effect s = s\<lparr>st_filtered := client_filter (st_search s) (st_transactions s)\<rparr>"

text \<open>The first effect, run when \<open>month\<close> or \<open>page\<close> changes: four requests, none awaited.\<close>

definition fetch_all :: "app_state \<Rightarrow> app_state" where
  "fetch_all s =
     s\<lparr>st_pending := st_pending s @
        [Req_transactions (st_month s) (st_page s), Req_statistics (st_month s),
         Req_barchart (st_month s), Req_piechart (st_month s)]\<rparr>"

text \<open>The query string of \<open>fetchTransactions\<close>: \<open>params: { month, page }\<close>.\<close>

definition listing_request :: "string \<Rightarrow> int \<Rightarrow> list_params" where
  "listing_request m p = \<lparr>q_page = Some p, q_perPage = None, q_searchText = None, q_month = Some m\<rparr>"

text \<open>
  What each \<open>fetch...\<close> function does when its response arrives: the setters on a
  2xx reply, nothing but a console message on an error (404 and 500 included).
\<close>

definition receive :: "store \<Rightarrow> request \<Rightarrow> app_state \<Rightarrow> app_state" where
  "receive db r s =
     (case r of
       Req_transactions m p \<Rightarrow>
         (case transactions_handler db (listing_request m p) of
           Ok b \<Rightarrow> filter_effect (s\<lparr>st_transactions := transactions b, st_filtered := transactions b,
                                   st_totalPages := total_pages b\<rparr>)
         | _ \<Rightarrow> s)
     | Req_statistics m \<Rightarrow>
         (case statistics_handler db (Some m) of Ok b \<Rightarrow> s\<lparr>st_statistics := Some b\<rparr> | _ \<Rightarrow> s)
     | Req_barchart m \<Rightarrow>
         (case barchart_handler db (Some m) of
           Ok bars \<Rightarrow> s\<lparr>st_bar_labels := map bar_range bars, st_bar_data := map bar_count bars\<rparr>
         | _ \<Rightarrow> s)
     | Req_piechart m \<Rightarrow>
         (case piechart_handler db (Some m) of
           Ok sl \<Rightarrow> s\<lparr>st_pie_labels := map pie_category sl, st_pie_data := map pie_count sl\<rparr>
         | _ \<Rightarrow> s))"

definition remove_nth :: "nat \<Rightarrow> 'a list \<Rightarrow> 'a list" where
  "remove_nth i xs = take i xs @ drop (Suc i) xs"

text \<open>The response to the \<open>i\<close>-th pending request arrives.\<close>

definition deliver :: "store \<Rightarrow> nat \<Rightarrow> app_state \<Rightarrow> app_state" where
  "deliver db i s =
     (if i < length (st_pending s)
      then receive db (st_pending s ! i) (s\<lparr>st_pending := remove_nth i (st_pending s)\<rparr>)
      else s)"

text \<open>
  \<open>setSearch\<close> and \<open>setMonth\<close>: React skips the render, hence the effects, when the
  value is unchanged.
\<close>

definition set_search :: "string \<Rightarrow> app_state \<Rightarrow> app_state" where
  "set_search v s = (if v = st_search s then s else filter_effect (s\<lparr>st_search := v\<rparr>))"

definition set_month :: "string \<Rightarrow> app_state \<Rightarrow> app_state" where
  "set_month v s = (if v = st_month s then s else fetch_all (s\<lparr>st_month := v\<rparr>))"

text \<open>
  \<open>page >= totalPages\<close>, the \<open>disabled\<close> condition of Next. \<open>totalPages\<close> arrives
  through JSON, where a non-finite number becomes \<open>null\<close>, which compares as \<open>0\<close>.
\<close>

definition page_ge :: "int \<Rightarrow> jsnum \<Rightarrow> bool" where
  "page_ge p tp = (case tp of Fin q \<Rightarrow> q \<le> of_int p | _ \<Rightarrow> 0 \<le> p)"

definition prev_click :: "app_state \<Rightarrow> app_state" where
  "prev_click s = (if st_page s \<le> 1 then s else fetch_all (s\<lparr>st_page := st_page s - 1\<rparr>))"

definition next_click :: "app_state \<Rightarrow> app_state" where
  "next_click s = (if page_ge (st_page s) (st_totalPages s) then s else fetch_all (s\<lparr>st_page := st_page s + 1\<rparr>))"

definition handleMouseEnter :: "string \<Rightarrow> app_state \<Rightarrow> app_state" where
  "handleMouseEnter url s = s\<lparr>st_hoveredImage := Some url, st_showEnlarged := True\<rparr>"

definition handleClickOnImage :: "app_state \<Rightarrow> app_state" where
  "handleClickOnImage s = s\<lparr>st_showEnlarged := False\<rparr>"

text \<open>
  One event. The month select only offers the names of \<open>months\<close>, so another value
  cannot occur; a click on a disabled button does nothing.
\<close>

definition app_step :: "store \<Rightarrow> app_state \<Rightarrow> app_event \<Rightarrow> app_state" where
  "app_step db s e =
     (case e of
       Search_input v \<Rightarrow> set_search v s
     | Clear_search \<Rightarrow> set_search [] s
     | Select_month v \<Rightarrow> (if v \<in> set months then set_month v s else s)
     | Prev_click \<Rightarrow> prev_click s
     | Next_click \<Rightarrow> next_click s
     | Mouse_enter url \<Rightarrow> handleMouseEnter url s
     | Image_click \<Rightarrow> handleClickOnImage s
     | Deliver i \<Rightarrow> deliver db i s)"

text \<open>The first render: the initial state, then both effects.\<close>

definition init_state :: app_state where
  "init_state = fetch_all (filter_effect
     \<lparr>st_transactions = [], st_filtered = [], st_statistics = None, st_bar_labels = [], st_bar_data = [],
      st_pie_labels = [], st_pie_data = [], st_month = ''March'', st_search = [], st_page = 1,
      st_totalPages = Fin 1, st_hoveredImage = None, st_showEnlarged = False, st_pending = []\<rparr>)"

definition run :: "store \<Rightarrow> app_state \<Rightarrow> app_event list \<Rightarrow> app_state" where
  "run db s es = foldl (app_step db) s es"

inductive reach :: "store \<Rightarrow> app_state \<Rightarrow> bool" for db where
  reach_init: "reach db init_state"
| reach_step: "reach db s \<Longrightarrow> reach db (app_step db s e)"

section \<open>Invariant\<close>

definition req_ok :: "request \<Rightarrow> bool" where
  "req_ok r =
     (case r of
       Req_transactions m p \<Rightarrow> m \<in> set months \<and> 1 \<le> p
     | Req_statistics m \<Rightarrow> m \<in> set months
     | Req_barchart m \<Rightarrow> m \<in> set months
     | Req_piechart m \<Rightarrow> m \<in> set months)"

definition app_inv :: "app_state \<Rightarrow> bool" where
  "app_inv s \<longleftrightarrow>
     st_filtered s = client_filter (st_search s) (st_transactions s) \<and> 1 \<le> st_page s \<and>
     st_month s \<in> set months \<and> list_all req_ok (st_pending s)"


section \<open>Preservation of the invariant\<close>

lemma list_all_remove_nth: "list_all P xs \<Longrightarrow> list_all P (remove_nth i xs)"
  by (auto simp: remove_nth_def list_all_iff dest: in_set_takeD in_set_dropD)

lemma app_inv_fetch_all: "app_inv s \<Longrightarrow> app_inv (fetch_all s)"
  by (simp add: app_inv_def fetch_all_def req_ok_def)

lemma app_inv_receive: "app_inv s \<Longrightarrow> app_inv (receive db r s)"
  by (auto simp: receive_def app_inv_def filter_effect_def split: request.splits reply.splits)

lemma app_inv_deliver: "app_inv s \<Longrightarrow> app_inv (deliver db i s)"
proof -
  assume s: "app_inv s"
  then have "app_inv (s\<lparr>st_pending := remove_nth i (st_pending s)\<rparr>)"
    by (simp add: app_inv_def list_all_remove_nth)
  then show ?thesis using s by (simp add: deliver_def app_inv_receive)
qed

lemma app_inv_step: "app_inv s \<Longrightarrow> app_inv (app_step db s e)"
proof (cases e)
  case (Select_month v)
  assume s: "app_inv s"
  then have "v \<in> set months \<Longrightarrow> app_inv (s\<lparr>st_month := v\<rparr>)" by (simp add: app_inv_def)
  then show ?thesis using s Select_month by (auto simp: app_step_def set_month_def app_inv_fetch_all)
next
  case Prev_click
  assume s: "app_inv s"
  then have "\<not> st_page s \<le> 1 \<Longrightarrow> app_inv (s\<lparr>st_page := st_page s - 1\<rparr>)" by (simp add: app_inv_def)
  then show ?thesis using s Prev_click by (auto simp: app_step_def prev_click_def app_inv_fetch_all)
next
  case Next_click
  assume s: "app_inv s"
  then have "app_inv (s\<lparr>st_page := st_page s + 1\<rparr>)" by (simp add: app_inv_def)
  then show ?thesis using s Next_click by (auto simp: app_step_def next_click_def app_inv_fetch_all)
next
  case (Deliver i)
  assume "app_inv s"
  then show ?thesis using Deliver by (simp add: app_step_def app_inv_deliver)
qed (auto simp: app_step_def set_search_def filter_effect_def app_inv_def handleMouseEnter_def
      handleClickOnImage_def)

lemma app_inv_init: "app_inv init_state"
  by (simp add: app_inv_def init_state_def fetch_all_def filter_effect_def req_ok_def months_def
      client_filter_def)

lemma reach_app_inv: "reach db s \<Longrightarrow> app_inv s"
  by (induction rule: reach.induct) (simp_all add: app_inv_init app_inv_step)

section \<open>Replies the client receives\<close>

lemma months_eq: "months = month_names"
  by (simp add: months_def month_names_def)

lemma month_query_exists: "m \<in> set months \<Longrightarrow> \<exists>dq. build_date_query (Some m) = Inr dq"
proof -
  assume "m \<in> set months"
  then have mn: "m \<in> set month_names" by (simp add: months_eq)
  then obtain i where i: "i < length month_names" "month_names ! i = m"
    by (auto simp: in_set_conv_nth)
  have "length month_names = 12" by (simp add: month_names_def)
  then have "month_index m = Some i" using i month_index_names [of i] by simp
  moreover have "m \<noteq> []" using mn by (auto simp: month_names_def)
  ultimately show ?thesis by (simp add: build_date_query_def)
qed

lemma listing_request_fields:
  "q_searchText (listing_request m p) = None" "q_month (listing_request m p) = Some m"
  "req_page (listing_request m p) = p" "req_perPage (listing_request m p) = 10"
  by (simp_all add: listing_request_def req_page_def req_perPage_def DEFAULT_PER_PAGE_def)

lemma app_listing_reply:
  assumes "reachable db" "m \<in> set months" "1 \<le> p"
  shows "transactions_handler db (listing_request m p) =
           (if page_slice p 10 (spec_matches db None (Some m)) = [] then Not_found
            else Ok \<lparr>transactions = page_slice p 10 (spec_matches db None (Some m)), page_no = p, per_page = 10,
                     total_pages = Fin (of_int ((int (length (spec_matches db None (Some m))) + 9) div 10))\<rparr>)"
proof -
  obtain dq where dq: "build_date_query (Some m) = Inr dq" using month_query_exists [OF assms(2)] by blast
  have "plain_search (q_searchText (listing_request m p))" by (simp add: listing_request_fields plain_search_def)
  from listing_reply [OF this _ assms(1)] dq assms(3) show ?thesis
    by (simp add: listing_request_fields Let_def add.commute)
qed

lemma app_request_served:
  assumes "reachable db" "req_ok r"
  shows "case r of
           Req_transactions m p \<Rightarrow> transactions_handler db (listing_request m p) \<notin> {Server_error, Unmodelled_input}
         | Req_statistics m \<Rightarrow> (\<exists>b. statistics_handler db (Some m) = Ok b)
         | Req_barchart m \<Rightarrow> (\<exists>b. barchart_handler db (Some m) = Ok b)
         | Req_piechart m \<Rightarrow> (\<exists>b. piechart_handler db (Some m) = Ok b)"
proof (cases r)
  case (Req_transactions m p)
  then show ?thesis using assms app_listing_reply [OF assms(1)] by (simp add: req_ok_def)
next
  case (Req_statistics m)
  then obtain dq where "build_date_query (Some m) = Inr dq"
    using assms(2) month_query_exists by (auto simp: req_ok_def)
  then show ?thesis using Req_statistics statistics_handler_ok [OF assms(1)] by simp
next
  case (Req_barchart m)
  then obtain dq where "build_date_query (Some m) = Inr dq"
    using assms(2) month_query_exists by (auto simp: req_ok_def)
  then show ?thesis using Req_barchart barchart_handler_ok [OF assms(1)] by simp
next
  case (Req_piechart m)
  then obtain dq where d: "build_date_query (Some m) = Inr dq"
    using assms(2) month_query_exists by (auto simp: req_ok_def)
  then show ?thesis using Req_piechart month_query_ops(2) [OF assms(1) d] by (simp add: piechart_handler_def)
qed

lemma deliver_transactions:
  assumes "i < length (st_pending s)" "st_pending s ! i = Req_transactions m p"
  shows "app_step db s (Deliver i) =
           (case transactions_handler db (listing_request m p) of
              Ok b \<Rightarrow> filter_effect (s\<lparr>st_pending := remove_nth i (st_pending s), st_transactions := transactions b,
                                      st_filtered := transactions b, st_totalPages := total_pages b\<rparr>)
            | _ \<Rightarrow> s\<lparr>st_pending := remove_nth i (st_pending s)\<rparr>)"
  using assms by (simp add: app_step_def deliver_def receive_def split: reply.splits)

lemma empty_page_not_found:
  assumes "reachable db" "m \<in> set months" "1 \<le> p" "int (length (spec_matches db None (Some m))) \<le> (p - 1) * 10"
  shows "transactions_handler db (listing_request m p) = Not_found"
proof -
  have "nat ((p - 1) * 10) \<ge> length (spec_matches db None (Some m))" using assms(4) by linarith
  then have "page_slice p 10 (spec_matches db None (Some m)) = []" by (simp add: page_slice_def)
  then show ?thesis using app_listing_reply [OF assms(1-3)] by simp
qed

lemma number_to_string_nat: "number_to_string (of_nat n) = show_nat n"
  by (simp add: number_to_string_def Let_def)

section \<open>Properties of the client\<close>

text \<open>C11: In every state the dashboard reaches, the table shows exactly the client-side search of the last page received, the page is at least 1, the month is one of the twelve names, and every request in flight carries such a month and page.\<close>

theorem app_state_invariant:
  assumes "reach db s"
  shows "st_filtered s = client_filter (st_search s) (st_transactions s) \<and> 1 \<le> st_page s \<and>
         st_month s \<in> set months \<and> list_all req_ok (st_pending s)"
  using reach_app_inv [OF assms] by (simp add: app_inv_def)

text \<open>C12: On a reachable store the server never answers a request the dashboard has in flight with 500: a listing request gets a page or 404, and the three aggregation requests get their data.\<close>

theorem app_requests_served:
  assumes "reach db s" "reachable db"
  shows "list_all (\<lambda>r. case r of
             Req_transactions m p \<Rightarrow> transactions_handler db (listing_request m p) \<notin> {Server_error, Unmodelled_input}
           | Req_statistics m \<Rightarrow> (\<exists>b. statistics_handler db (Some m) = Ok b)
           | Req_barchart m \<Rightarrow> (\<exists>b. barchart_handler db (Some m) = Ok b)
           | Req_piechart m \<Rightarrow> (\<exists>b. piechart_handler db (Some m) = Ok b)) (st_pending s)"
  using reach_app_inv [OF assms(1)] app_request_served [OF assms(2)]
  by (auto simp: app_inv_def list_all_iff)

text \<open>C13: When the response to a listing request for a month with no record on the requested page arrives, the table, the filtered rows and totalPages keep their previous values.\<close>

theorem empty_page_keeps_table:
  assumes "reachable db" "i < length (st_pending s)" "st_pending s ! i = Req_transactions m p"
    and "m \<in> set months" "1 \<le> p" "int (length (spec_matches db None (Some m))) \<le> (p - 1) * 10"
  shows "st_transactions (app_step db s (Deliver i)) = st_transactions s \<and>
         st_filtered (app_step db s (Deliver i)) = st_filtered s \<and>
         st_totalPages (app_step db s (Deliver i)) = st_totalPages s"
  using deliver_transactions [OF assms(2,3)] empty_page_not_found [OF assms(1,4,5,6)] by simp

text \<open>C14: A listing response that arrives is written to the table and totalPages whatever month and page it was requested for, and the selected month and page stay as they are.\<close>

theorem late_response_applied:
  assumes "i < length (st_pending s)" "st_pending s ! i = Req_transactions m p"
    and "transactions_handler db (listing_request m p) = Ok b"
  shows "st_transactions (app_step db s (Deliver i)) = transactions b \<and>
         st_totalPages (app_step db s (Deliver i)) = total_pages b \<and>
         st_month (app_step db s (Deliver i)) = st_month s \<and> st_page (app_step db s (Deliver i)) = st_page s"
  using deliver_transactions [OF assms(1,2)] assms(3) by (simp add: filter_effect_def)

lemma receive_pending: "st_pending (receive db r s) = st_pending s"
  by (simp add: receive_def filter_effect_def split: request.splits reply.splits)

lemma deliver_first_pending:
  "st_pending s \<noteq> [] \<Longrightarrow> st_pending (app_step db s (Deliver 0)) = tl (st_pending s)"
  by (simp add: app_step_def deliver_def receive_pending remove_nth_def drop_Suc)

lemma run_Cons: "run db s (e # es) = run db (app_step db s e) es"
  by (simp add: run_def)

text \<open>C18: Whatever the state, once the responses to the requests in flight arrive one after another, no request is left pending: every fetch the effects start completes and is handled.\<close>

theorem responses_drain:
  "st_pending (run db s (replicate (length (st_pending s)) (Deliver 0))) = []"
proof (induction "length (st_pending s)" arbitrary: s)
  case 0
  then show ?case by (simp add: run_def)
next
  case (Suc n)
  then have ne: "st_pending s \<noteq> []" by auto
  have l: "length (st_pending (app_step db s (Deliver 0))) = n"
    using Suc.hyps(2) by (simp add: deliver_first_pending [OF ne])
  have "run db s (replicate (length (st_pending s)) (Deliver 0)) =
        run db (app_step db s (Deliver 0)) (replicate n (Deliver 0))"
    by (simp flip: Suc.hyps(2) add: run_Cons)
  then show ?case using Suc.hyps(1) [of "app_step db s (Deliver 0)"] l by simp
qed

end
