(* ===== verification/View.thy ===== *)
theory View
  imports Frontend "HOL-Library.While_Combinator"
begin

text \<open>
  What the \<open>App\<close> component of \<open>src/Frontend/src/App.jsx\<close> renders, as a function
  of its state: the two controls, one table row per filtered transaction with its
  image overlay, the enabled state of the two pagination buttons, the three lines of
  statistics and the data handed to the two charts. Text that JSX renders from a
  number is its \<open>toString\<close>, an \<open>undefined\<close> value renders as nothing.
  \<open>toLocaleDateString\<close> depends on the browser's locale and time zone, so the view
  takes the date formatter as a parameter. The theory also states the loop of a user
  who clicks Next while the button is enabled, with \<open>while_option\<close>, and proves
  that it ends, and it follows a bar-chart reply of the server through the client's
  state into the rendered chart.
\<close>

section \<open>The rendered view\<close>

text \<open>One \<open><tr>\<close> of the table: its eight cells and whether the enlarged image shows.\<close>

record row =
  r_id :: string
  r_title :: string
  r_price :: string
  r_description :: string
  r_image :: string
  r_category :: string
  r_sold :: string
  r_date :: string
  r_overlay :: bool

definition render_row :: "(millis \<Rightarrow> string) \<Rightarrow> app_state \<Rightarrow> transaction \<Rightarrow> row" where
  "render_row fmt s t =
     \<lparr>r_id = number_to_string (of_int (txn_id t)), r_title = title t, r_price = number_to_string (price t),
      r_description = description t, r_image = image t, r_category = category t,
      r_sold = (if sold t then ''Yes'' else ''No''), r_date = fmt (dateOfSale t),
      r_overlay = (st_showEnlarged s \<and> st_hoveredImage s = Some (image t))\<rparr>"

text \<open>\<open>{x}\<close> in JSX for a value that may be \<open>undefined\<close>.\<close>

definition opt_text :: "('a \<Rightarrow> string) \<Rightarrow> 'a option \<Rightarrow> string" where
  "opt_text f v = (case v of None \<Rightarrow> [] | Some x \<Rightarrow> f x)"

record view =
  v_search :: string
  v_month :: string
  v_options :: "string list"
  v_rows :: "row list"
  v_prev_disabled :: bool
  v_next_disabled :: bool
  v_stats :: "string list"
  v_bar_labels :: "string list"
  v_bar_data :: "nat list"
  v_pie_labels :: "string list"
  v_pie_data :: "nat list"

definition render :: "(millis \<Rightarrow> string) \<Rightarrow> app_state \<Rightarrow> view" where
  "render fmt s =
     \<lparr>v_search = st_search s, v_month = st_month s, v_options = months,
      v_rows = map (render_row fmt s) (st_filtered s),
      v_prev_disabled = (st_page s \<le> 1),
      v_next_disabled = page_ge (st_page s) (st_totalPages s),
      v_stats = [''Total Sale Amount: $'' @ opt_text (\<lambda>b. number_to_string (totalSaleAmount b)) (st_statistics s),
                 ''Total Sold Items: '' @ opt_text (\<lambda>b. show_nat (totalSoldItems b)) (st_statistics s),
                 ''Total Not Sold Items: '' @ opt_text (\<lambda>b. show_nat (totalNotSoldItems b)) (st_statistics s)],
      v_bar_labels = st_bar_labels s, v_bar_data = st_bar_data s,
      v_pie_labels = st_pie_labels s, v_pie_data = st_pie_data s\<rparr>"

section \<open>Clicking Next while it is enabled\<close>

definition next_until_disabled :: "app_state \<Rightarrow> app_state option" where
  "next_until_disabled s = while_option (\<lambda>s. \<not> page_ge (st_page s) (st_totalPages s)) next_click s"

text \<open>The last page the Next button leads to: \<open>page >= totalPages\<close> holds from it on.\<close>

definition page_limit :: "jsnum \<Rightarrow> int" where
  "page_limit tp = (case tp of Fin q \<Rightarrow> \<lceil>q\<rceil> | _ \<Rightarrow> 0)"

section \<open>Properties\<close>

lemma page_ge_limit: "page_ge p tp \<longleftrightarrow> page_limit tp \<le> p"
  by (cases tp) (simp_all add: page_ge_def page_limit_def ceiling_le_iff)

lemma next_click_enabled:
  "\<not> page_ge (st_page s) (st_totalPages s) \<Longrightarrow>
     st_page (next_click s) = st_page s + 1 \<and> st_totalPages (next_click s) = st_totalPages s \<and>
     st_month (next_click s) = st_month s"
  by (simp add: next_click_def fetch_all_def)

text \<open>C16: Clicking Next for as long as it is enabled ends, whatever the state: after finitely many clicks page >= totalPages holds, with totalPages and the month unchanged.\<close>

theorem next_clicks_terminate:
  "\<exists>s'. next_until_disabled s = Some s' \<and> page_ge (st_page s') (st_totalPages s') \<and>
        st_totalPages s' = st_totalPages s \<and> st_month s' = st_month s"
proof -
  let ?b = "\<lambda>s. \<not> page_ge (st_page s) (st_totalPages s)"
  let ?P = "\<lambda>s'. st_totalPages s' = st_totalPages s \<and> st_month s' = st_month s"
  have wf: "wf {(t, u). (?P u \<and> ?b u) \<and> t = next_click u}"
  proof (rule wf_subset [OF wf_measure [of "\<lambda>u. nat (page_limit (st_totalPages u) - st_page u)"]])
    show "{(t, u). (?P u \<and> ?b u) \<and> t = next_click u}
          \<subseteq> measure (\<lambda>u. nat (page_limit (st_totalPages u) - st_page u))"
      by (auto simp: next_click_enabled page_ge_limit)
  qed
  obtain s' where s': "next_until_disabled s = Some s'"
    using wf_while_option_Some [OF wf, of s] next_click_enabled unfolding next_until_disabled_def by auto
  have "page_ge (st_page s') (st_totalPages s')"
    using while_option_stop [OF s' [unfolded next_until_disabled_def]] by simp
  moreover have "?P s'"
    by (rule while_option_rule [OF _ s' [unfolded next_until_disabled_def]]) (simp_all add: next_click_enabled)
  ultimately show ?thesis using s' by blast
qed

lemma render_rows_reach:
  "reach db s \<Longrightarrow> v_rows (render fmt s) = map (render_row fmt s) (client_filter (st_search s) (st_transactions s))"
  using reach_app_inv [of db s] by (simp add: render_def app_inv_def)

lemma prev_disabled_reach:
  "reach db s \<Longrightarrow> v_prev_disabled (render fmt s) \<longleftrightarrow> st_page s = 1"
  using reach_app_inv [of db s] by (auto simp: render_def app_inv_def)

lemma overlay_after_enter:
  "map r_overlay (v_rows (render fmt (app_step db s (Mouse_enter url)))) = map (\<lambda>t. url = image t) (st_filtered s)"
  by (simp add: render_def render_row_def app_step_def handleMouseEnter_def comp_def)

lemma overlay_after_click:
  "list_all (\<lambda>r. \<not> r_overlay r) (v_rows (render fmt (app_step db s Image_click)))"
  by (simp add: render_def render_row_def app_step_def handleClickOnImage_def list_all_iff)


text \<open>C15: In every reachable state the table renders one row per record of the client-side search of the last page received, and the Previous button is disabled exactly on page 1.\<close>

theorem view_invariant:
  assumes "reach db s"
  shows "v_rows (render fmt s) = map (render_row fmt s) (client_filter (st_search s) (st_transactions s)) \<and>
         (v_prev_disabled (render fmt s) \<longleftrightarrow> st_page s = 1)"
  using render_rows_reach [OF assms] prev_disabled_reach [OF assms] by simp

lemma image_overlay:
  "map r_overlay (v_rows (render fmt (app_step db s (Mouse_enter url)))) = map (\<lambda>t. url = image t) (st_filtered s) \<and>
   list_all (\<lambda>r. \<not> r_overlay r) (v_rows (render fmt (app_step db s Image_click)))"
  using overlay_after_enter overlay_after_click by simp

lemma deliver_barchart:
  assumes "i < length (st_pending s)" and "st_pending s ! i = Req_barchart m"
    and "barchart_handler db (Some m) = Ok bars"
  shows "st_bar_labels (app_step db s (Deliver i)) = map bar_range bars \<and>
         st_bar_data (app_step db s (Deliver i)) = map bar_count bars"
  using assms by (simp add: app_step_def deliver_def receive_def)

text \<open>C17: When the response to a pending bar-chart request for a month arrives, on a reachable store, the rendered chart shows the ten buckets 0-100, ..., 901-above in order with the number of the month's records in each, and these numbers add up to the month's records with a non-negative price.\<close>

theorem barchart_rendered:
  assumes "reachable db" and "i < length (st_pending s)" and "st_pending s ! i = Req_barchart m"
    and "m \<in> set months"
  shows "v_bar_labels (render fmt (app_step db s (Deliver i))) =
           [''0-100'', ''101-200'', ''201-300'', ''301-400'', ''401-500'',
            ''501-600'', ''601-700'', ''701-800'', ''801-900'', ''901-above''] \<and>
         v_bar_data (render fmt (app_step db s (Deliver i))) =
           map (\<lambda>r. length (filter (\<lambda>t. in_bucket r (price t)) (month_matches db (Some m)))) priceRanges \<and>
         sum_list (v_bar_data (render fmt (app_step db s (Deliver i)))) =
           length (filter (\<lambda>t. 0 \<le> price t) (month_matches db (Some m)))"
proof -
  obtain dq where dq: "build_date_query (Some m) = Inr dq"
    using month_query_exists [OF assms(4)] by blast
  show ?thesis
    using deliver_barchart [OF assms(2,3) barchart_handler_ok [OF assms(1) dq]] bar_labels
          barchart_counts_sum [of "month_matches db (Some m)"]
    by (simp add: render_def comp_def)
qed

end
