(* ===== verification/Spec2Isabelle.thy ===== *)
theory Spec2Isabelle
  imports View
begin

text \<open>
  \<^bold>\<open>Verification development of the product-transaction dashboard.\<close>
  The repository has two programs. \<open>src/Backend/server.js\<close> is an Express server
  over a MongoDB collection of sales records (Mongoose model \<open>Data\<close>, schema
  \<open>DataSchema\<close>) with four read-only endpoints: \<open>GET /transactions\<close> (search,
  month filter, pagination), \<open>GET /statistics\<close>, \<open>GET /barchart\<close> and
  \<open>GET /piechart\<close>, all filtered by a month through \<open>buildDateQuery\<close>.
  \<open>src/Frontend/src/App.jsx\<close> is a React component that holds the selected month,
  page and search text, calls the four endpoints whenever the month or page changes,
  and filters the received page in the browser.

  \<^bold>\<open>Theories.\<close>
  \<^item> \<open>Prelude\<close>: the types \<open>price\<close> (exact rationals) and \<open>millis\<close>, counting
    lemmas on filters (interval joins, double counting) and integer division
    rounded up, which is \<open>Math.ceil\<close> of a quotient.
  \<^item> \<open>Calendar\<close>: MongoDB's \<open>$month\<close> of \<open>dateOfSale\<close> (\<open>utc_month\<close> via
    \<open>civil_of_days\<close>, loops \<open>year_of_day\<close>, \<open>month_of_day\<close> over 400-year eras),
    with the inverse \<open>days_of_civil\<close> and the round trip.
  \<^item> \<open>Regex\<close>: \<open>$regex\<close> with option \<open>i\<close>: syntax \<open>re\<close>, declarative semantics
    \<open>sem\<close>, the backtracking matcher \<open>mt\<close> proved equal to it, and the facts on
    classes (\<open>cls_match\<close>, case-insensitive both ways) and on tails that match
    the empty string.
  \<^item> \<open>RegexParse\<close>: the pattern compiler \<open>parse_rx\<close> (PCRE's reading of the
    search text): literals, \<open>.\<close>, anchors, groups and non-capturing groups
    \<open>(?:...)\<close>, alternation, the quantifiers
    \<open>* + ?\<close>, counted repetition \<open>{n}\<close>, \<open>{n,}\<close>, \<open>{n,m}\<close> (\<open>read_repeat\<close>,
    \<open>repeat_re\<close>; a brace that starts no repetition is literal), the escapes
    \<open>\d \w \s\<close> and their complements, control-character escapes, the
    assertions \<open>\A \G \Z \z\<close> and the word boundaries \<open>\b \B\<close>,
    and bracket expressions with ranges, negation and escapes (\<open>parse_class\<close>);
    what plain text, letter classes, escapes and repetitions match, and the
    syntax errors: unbalanced groups, unclosed brackets, reversed ranges,
    repetition bounds out of order or above 65535, a repetition of nothing.
  \<^item> \<open>NumParse\<close>: \<open>parseFloat(searchText)\<close> per ECMA-262 on rationals, and
    \<open>show_nat\<close>, the decimal form of a number in a template string.
  \<^item> \<open>Store\<close>: the record type (\<open>DataSchema\<close>), filter documents as the
    handlers write them, the object spread that merges them, MongoDB's reading of
    a filter as a predicate or an error, and \<open>countDocuments\<close>,
    \<open>find().skip().limit()\<close> and the two \<open>aggregate\<close> pipelines.
  \<^item> \<open>Query\<close>: \<open>buildDateQuery\<close> (\<open>build_date_query\<close>, month names read as V8
    reads \<open>`${month} 1, 2000`\<close>) and \<open>searchQuery\<close> (\<open>build_search_query\<close>); the
    specification's predicate type \<open>All | Month | Search | And\<close> and the refinement
    theorem that the built filters denote it.
  \<^item> \<open>Listing\<close>: \<open>GET /transactions\<close> (\<open>transactions_handler\<close>), the reply type
    shared by all handlers (\<open>Ok\<close>, 404 \<open>Not_found\<close>, 500 \<open>Server_error\<close>), the
    page contents and counts, each error path, and that a reply's page is a
    non-empty subsequence of the collection of at most \<open>perPage\<close> records.
  \<^item> \<open>Aggregation\<close>: \<open>statistics_handler\<close>, \<open>barchart_handler\<close> (ten
    \<open>countDocuments\<close> joined by \<open>promise_all\<close>) and \<open>piechart_handler\<close>; the
    tiling of the price axis by \<open>priceRanges\<close>, the bucket of every price,
    and the category breakdown unique up to order.
  \<^item> \<open>Frontend\<close>: \<open>App\<close>'s state as the record \<open>app_state\<close>, one function per
    handler and effect, the response of each request as a separate event
    \<open>Deliver i\<close> taken in any order, reachable states as the inductive \<open>reach\<close>;
    the invariant by rule induction, and the replies the client can receive.
  \<^item> \<open>View\<close>: what \<open>App\<close> renders from its state (\<open>render\<close>, \<open>render_row\<close>):
    the table rows with the image overlay, the disabled state of Previous and
    Next, the statistics lines and the chart data; the rows and the Previous
    button in every reachable state; the user loop of clicking Next while it is
    enabled (\<open>next_until_disabled\<close>, a \<open>while_option\<close>) and its termination;
    a bar-chart reply followed from \<open>barchart_handler\<close> through \<open>Deliver\<close> to
    the rendered chart.
  \<^item> this theory: example stores and requests, properties that span components
    (what the search filter built by \<open>searchQuery\<close> selects for numeric texts,
    plain words, counted repetitions, backslash escapes and a number followed by
    text; the year-independent month filter), two evaluated traces of the client,
    and the witnesses.

  \<^bold>\<open>Environment models.\<close> \<open>Calendar\<close>, \<open>Regex\<close>, \<open>RegexParse\<close> and
  \<open>NumParse\<close> model what the code calls and does not define (MongoDB's \<open>$month\<close>
  and \<open>$regex\<close>, ECMAScript's \<open>parseFloat\<close>). Their own lemmas (the matcher
  equals its semantics, the calendar round trip, the behaviour of each regex
  construct) hold whatever the repository does; the properties of the
  development are the statements about the code that use them: the search
  filter of \<open>GET /transactions\<close>, its 500 on an invalid pattern, the month filter.

  \<^bold>\<open>Correspondence.\<close> A handler is a function from a store and the parsed query
  parameters to a reply; every \<open>await\<close> on the store is a call whose result is a sum
  \<open>store_error + 'a\<close>, and every \<open>catch\<close> is the \<open>Inl\<close> branch mapped by
  \<open>reply_of_error\<close>. The store is read-only, so the order of the store calls inside
  a handler does not matter; \<open>Promise.all\<close> is the list of results or the first
  failure. The client's state changes only through \<open>app_step\<close>; React's rule that
  setting an equal value does not re-render is kept, so effects run exactly when
  their dependencies change. A listing response and the
  \<open>[search, transactions]\<close> effect it triggers are one step of \<open>app_step\<close>: the
  frame React may paint between the setters and the effect, showing the page
  unfiltered, is not a state of the model, and the invariants are statements
  about the settled states.

  \<^bold>\<open>Bounds and loops.\<close> All definitions are total and executable: the calendar
  loops terminate by the measures \<open>nat r\<close> and \<open>12 - m\<close>, the matcher by the size
  of the pattern and the length of the subject (a starred pattern must consume a
  character before repeating, as PCRE's empty-iteration check does), the grouping
  by the length of the list, \<open>parse_rx\<close> and \<open>parse_class\<close> by the length of
  the remaining pattern (\<open>read_repeat\<close> consumes at least the closing brace). A
  repetition bound is at most 65535, PCRE's \<open>MAX_REPEAT_COUNT\<close>, so the expansion
  \<open>repeat_re\<close> of a repetition is a finite pattern. The Next loop is a \<open>while_option\<close>, whose result is
  proved to be \<open>Some\<close> by the measure \<open>ceil totalPages - page\<close>.
  \<open>number_to_string\<close> writes at most 20 fraction digits,
  enough for every price with a terminating decimal expansion of that length.

  \<^bold>\<open>Inputs outside the model.\<close> A month string that is not a word of letters
  naming a month, and a search text using a regex construct outside the fragment,
  give \<open>Unmodelled_input\<close>: the code does not reject them, and what the engines
  make of them is engine-specific. Query parameters are taken already converted to
  integers and strings: Express delivers them as strings, and what \<open>skip\<close> and
  \<open>limit\<close> make of a string depends on the Mongoose version, which the repository
  does not pin (it has no package manifest).

  \<^bold>\<open>Not modelled.\<close> HTTP and JSON transport (express, cors, \<open>app.listen\<close>),
  the connection string and the commented-out \<open>seedDatabase\<close>, binary64 rounding of
  prices, Unicode case mapping beyond ASCII, the PCRE constructs that need
  captured text, other matching modes or Unicode tables (back references,
  look-around and option groups such as \<open>(?=...)\<close> and \<open>(?i)\<close>, hexadecimal, octal and property
  escapes, POSIX classes, possessive quantifiers; given \<open>Unmodelled_input\<close>), the JSX layout, chart.js drawing and CSS, and
  \<open>toLocaleDateString\<close>, which depends on the browser's locale and time zone
  (the view takes the date formatter as a parameter). These are I/O, styling or
  engine-specific behaviour that no theorem of the code depends on.
\<close>

section \<open>Example data\<close>

definition example_txn :: "int \<Rightarrow> string \<Rightarrow> rat \<Rightarrow> string \<Rightarrow> bool \<Rightarrow> millis \<Rightarrow> transaction" where
  "example_txn i t p c s d = \<lparr>txn_id = i, title = t, price = p, description = t, category = c,
     image = '''', sold = s, dateOfSale = d\<rparr>"

text \<open>
  Three sales: on 2021-03-15, 2022-03-10 and 2021-04-02 (UTC midnight), at the
  specification's example prices 50, 150 and 901.
\<close>

definition example_store :: store where
  "example_store = \<lparr>docs = [
     example_txn 1 ''Backpack'' 50 ''bags'' True 1615766400000,
     example_txn 2 ''Jacket'' 150 ''clothing'' False 1646870400000,
     example_txn 3 ''Monitor'' 901 ''electronics'' True 1617321600000], reachable = True\<rparr>"

definition example_bars :: "bar list" where
  "example_bars = map (\<lambda>(l, c). \<lparr>bar_range = l, bar_count = c\<rparr>)
     [(''0-100'', 1), (''101-200'', 1), (''201-300'', 0), (''301-400'', 0), (''401-500'', 0),
      (''501-600'', 0), (''601-700'', 0), (''701-800'', 0), (''801-900'', 0), (''901-above'', 1)]"

definition example_slices :: "pie_slice list" where
  "example_slices = [\<lparr>pie_category = ''bags'', pie_count = 1\<rparr>, \<lparr>pie_category = ''clothing'', pie_count = 1\<rparr>,
     \<lparr>pie_category = ''electronics'', pie_count = 1\<rparr>]"

definition req_march_p2 :: list_params where
  "req_march_p2 = \<lparr>q_page = Some 2, q_perPage = Some 1, q_searchText = None, q_month = Some ''March''\<rparr>"

definition req_page0 :: list_params where
  "req_page0 = \<lparr>q_page = Some 0, q_perPage = None, q_searchText = None, q_month = None\<rparr>"

definition req_open_paren :: list_params where
  "req_open_paren = \<lparr>q_page = None, q_perPage = None, q_searchText = Some ''('', q_month = None\<rparr>"

definition req_all_on_one_page :: list_params where
  "req_all_on_one_page = \<lparr>q_page = Some 3, q_perPage = Some 0, q_searchText = None, q_month = None\<rparr>"

definition offline_store :: store where
  "offline_store = example_store\<lparr>reachable := False\<rparr>"

definition empty_store :: store where
  "empty_store = \<lparr>docs = [], reachable = True\<rparr>"

definition march_records :: "transaction list" where
  "march_records = [example_txn 1 ''Backpack'' 50 ''bags'' True 1615766400000,
     example_txn 2 ''Jacket'' 150 ''clothing'' False 1646870400000]"

definition lamp :: transaction where
  "lamp = example_txn 4 ''Lamp'' 42 ''home'' True 1615766400000"

definition june_state :: app_state where
  "june_state = init_state\<lparr>st_month := ''June'', st_pending := [Req_transactions ''June'' 1]\<rparr>"

definition april_state :: app_state where
  "april_state = init_state\<lparr>st_month := ''April'', st_pending := [Req_transactions ''March'' 1]\<rparr>"

section \<open>Evaluation rules\<close>

lemmas calendar_eval = utc_month_def civil_of_days_def ms_per_day_def days_per_era_def
  year_of_day.simps month_of_day.simps days_in_year_def days_in_month_def is_leap_year_def

lemmas month_name_eval = build_date_query_def month_index_def month_names_def
  is_ascii_letter_def lower_char_def char_of_def bit_simps

lemmas parse_eval = parse_float_def split_sign_def split_fraction_def parse_unsigned_def
  is_digit_def js_space_def digits_value_def digit_value_def exponent_part_def scale10_def

lemma march_query: "build_date_query (Some ''March'') = Inr [(K_expr, Month_eq 3)]"
  by (simp add: month_name_eval)

lemma no_month_query: "build_date_query None = Inr []"
  by (simp add: build_date_query_def)

lemma example_reachable: "reachable example_store" "reachable empty_store" "\<not> reachable offline_store"
  by (simp_all add: example_store_def empty_store_def offline_store_def)

lemma search_query_show_nat:
  "query_pred (build_search_query (Some (show_nat n))) =
     Inr (\<lambda>t. contains_ci (title t) (show_nat n) \<or> contains_ci (description t) (show_nat n) \<or> price t = of_nat n)"
proof -
  have p: "plain_search (Some (show_nat n))"
    using show_nat_digits [of n] by (auto simp: plain_search_def plain_pattern_def regex_meta_def is_digit_def list_all_iff)
  have f: "parse_float (show_nat n) = Fin (of_nat n)"
    using parse_float_show_nat_append [of "[]" n] by (simp add: ends_number_def)
  show ?thesis
    using search_query_pred [OF p] f show_nat_nonempty [of n]
    by (auto simp: search_spec_def fun_eq_iff)
qed

lemma example_all_months: "month_matches example_store None = docs example_store"
  by (simp add: month_matches_def month_spec_def)

lemma example_barchart:
  "barchart_handler example_store None = Ok example_bars"
proof -
  have r: "reachable example_store" by (simp add: example_store_def)
  have d: "build_date_query None = Inr []" by (simp add: build_date_query_def)
  have l: "map (\<lambda>r. range_label (fst r) (snd r)) priceRanges =
          [''0-100'', ''101-200'', ''201-300'', ''301-400'', ''401-500'',
           ''501-600'', ''601-700'', ''701-800'', ''801-900'', ''901-above'']"
    using range_labels by (simp add: case_prod_beta')
  have c: "map (\<lambda>r. length (filter (\<lambda>t. in_bucket r (price t)) (docs example_store))) priceRanges =
           [1, 1, 0, 0, 0, 0, 0, 0, 0, 1]"
    by (simp add: priceRanges_def example_store_def example_txn_def in_bucket_Some in_bucket_None)
  have "map (\<lambda>r. \<lparr>bar_range = range_label (fst r) (snd r),
                  bar_count = length (filter (\<lambda>t. in_bucket r (price t)) (docs example_store))\<rparr>) priceRanges
        = example_bars"
  proof -
    have "map (\<lambda>r. \<lparr>bar_range = range_label (fst r) (snd r),
                  bar_count = length (filter (\<lambda>t. in_bucket r (price t)) (docs example_store))\<rparr>) priceRanges =
          map (\<lambda>(a, b). \<lparr>bar_range = a, bar_count = b\<rparr>)
            (zip (map (\<lambda>r. range_label (fst r) (snd r)) priceRanges)
                 (map (\<lambda>r. length (filter (\<lambda>t. in_bucket r (price t)) (docs example_store))) priceRanges))"
      by (simp add: zip_map_map zip_same_conv_map comp_def)
    also have "\<dots> = example_bars" by (simp only: l c) (simp add: example_bars_def)
    finally show ?thesis .
  qed
  then show ?thesis
    using barchart_handler_ok [OF r d] by (simp add: example_all_months)
qed

lemma example_piechart: "piechart_handler example_store None = Ok example_slices"
proof -
  have g: "aggregate_category_counts example_store [] = Inr (group_count (map category (docs example_store)))"
    using month_query_ops(2) [OF example_reachable(1) no_month_query] by (simp only: example_all_months)
  show ?thesis
    using g by (simp add: piechart_handler_def no_month_query example_store_def example_txn_def example_slices_def)
qed

lemma example_month_matches:
  "spec_matches example_store None (Some ''March'') = march_records"
  "spec_matches example_store None (Some ''April'') = [example_txn 3 ''Monitor'' 901 ''electronics'' True 1617321600000]"
  "spec_matches example_store None (Some ''June'') = []"
  by (simp_all add: spec_matches_def example_store_def example_txn_def search_spec_def month_spec_def
      month_name_eval calendar_eval march_records_def)

lemma month_in_months: "''March'' \<in> set months" "''April'' \<in> set months" "''June'' \<in> set months"
  by (simp_all add: months_def)

lemma example_listing_replies:
  "transactions_handler example_store (listing_request ''March'' 1) =
     Ok \<lparr>transactions = march_records, page_no = 1, per_page = 10, total_pages = Fin 1\<rparr>"
  "transactions_handler example_store (listing_request ''April'' 1) =
     Ok \<lparr>transactions = [example_txn 3 ''Monitor'' 901 ''electronics'' True 1617321600000], page_no = 1,
         per_page = 10, total_pages = Fin 1\<rparr>"
  "transactions_handler example_store (listing_request ''June'' 1) = Not_found"
  by (simp_all add: app_listing_reply [OF example_reachable(1)] month_in_months example_month_matches
      page_slice_def march_records_def)

lemma init_pending:
  "st_pending init_state = [Req_transactions ''March'' 1, Req_statistics ''March'', Req_barchart ''March'',
     Req_piechart ''March'']"
  "st_month init_state = ''March''" "st_search init_state = []" "st_page init_state = 1"
  by (simp_all add: init_state_def fetch_all_def filter_effect_def)

lemma client_filter_empty: "client_filter [] xs = xs"
  by (simp add: client_filter_def client_match_def js_includes_def to_lower_def)

lemma show_nat_small: "show_nat 4 = ''4''" "show_nat 42 = ''42''"
  by (simp_all add: show_nat.simps char_of_def bit_simps)

lemma lamp_fields: "title lamp = ''Lamp''" "description lamp = ''Lamp''" "price lamp = 42"
  by (simp_all add: lamp_def example_txn_def)

section \<open>Properties across components\<close>

text \<open>C19: A search text that is a decimal number n matches a record when n occurs in its title or description, caselessly, or when its price equals n.\<close>

theorem search_number_text:
  "query_pred (build_search_query (Some (show_nat n))) =
     Inr (\<lambda>t. contains_ci (title t) (show_nat n) \<or> contains_ci (description t) (show_nat n) \<or> price t = of_nat n)"
  by (rule search_query_show_nat)




text \<open>C23: parseFloat reads a numeric prefix: the filter built for a number n followed by a non-empty plain text that cannot continue the number, such as 42abc, selects the records whose title or description contains the whole text caselessly and every record priced n.\<close>

theorem search_numeric_prefix:
  assumes "ends_number t" and "plain_pattern t" and "t \<noteq> []"
  shows "query_pred (build_search_query (Some (show_nat n @ t))) =
           Inr (\<lambda>x. contains_ci (title x) (show_nat n @ t) \<or> contains_ci (description x) (show_nat n @ t) \<or>
                    price x = of_nat n)"
proof -
  have "plain_pattern (show_nat n)"
    using show_nat_digits [of n] by (auto simp: plain_pattern_def regex_meta_def is_digit_def list_all_iff)
  then have p: "plain_search (Some (show_nat n @ t))"
    using assms(2) by (simp add: plain_search_def plain_pattern_def)
  have f: "parse_float (show_nat n @ t) = Fin (of_nat n)"
    by (rule parse_float_show_nat_append [OF assms(1)])
  show ?thesis
    using search_query_pred [OF p] f assms(3) by (auto simp: search_spec_def fun_eq_iff)
qed

text \<open>C24: The month filter built for March accepts a record dated on any valid day of March of any year, at any time of that day in UTC.\<close>

theorem month_filter_year_independent:
  assumes "valid_civil y 3 d" and "0 \<le> ms" and "ms < ms_per_day" and "dateOfSale t = millis_of_civil y 3 d ms"
  shows "(case build_date_query (Some ''March'') of
            Inl e \<Rightarrow> False
          | Inr dq \<Rightarrow> (case query_pred dq of Inl e \<Rightarrow> False | Inr P \<Rightarrow> P t))"
  using utc_month_millis_of_civil [OF assms(1-3)] assms(4) by (simp add: march_query)

lemma stale_month_trace:
  "st_month (run example_store init_state [Deliver 0, Select_month ''June'', Deliver 3]) = ''June'' \<and>
   st_transactions (run example_store init_state [Deliver 0, Select_month ''June'', Deliver 3]) = march_records \<and>
   st_filtered (run example_store init_state [Deliver 0, Select_month ''June'', Deliver 3]) = march_records"
  by (simp add: run_def app_step_def deliver_def receive_def init_pending example_listing_replies
      set_month_def fetch_all_def filter_effect_def remove_nth_def month_in_months client_filter_empty)

lemma out_of_order_trace:
  "st_month (run example_store init_state [Select_month ''April'', Deliver 4, Deliver 0]) = ''April'' \<and>
   st_transactions (run example_store init_state [Select_month ''April'', Deliver 4, Deliver 0]) = march_records"
  by (simp add: run_def app_step_def deliver_def receive_def init_pending example_listing_replies
      set_month_def fetch_all_def filter_effect_def remove_nth_def month_in_months client_filter_empty)

lemma client_search_diverges:
  "client_match ''4'' lamp \<and>
   (case query_pred (build_search_query (Some ''4'')) of Inl e \<Rightarrow> False | Inr P \<Rightarrow> \<not> P lamp)"
proof -
  have n: "number_to_string (price lamp) = ''42''"
    using number_to_string_nat [of 42] by (simp add: lamp_fields show_nat_small)
  have "sublist ''4'' (number_to_string (price lamp))"
    unfolding n sublist_def by (rule exI [of _ "[]"], rule exI [of _ "''2''"]) simp
  then have c: "client_match ''4'' lamp" by (simp add: client_match_def js_includes_def)
  have nc: "\<not> contains_ci ''Lamp'' ''4''"
    by (auto simp: contains_ci_def lower_char_def char_of_def bit_simps sublist_def
        append_eq_append_conv2 Cons_eq_append_conv)
  have s: "query_pred (build_search_query (Some ''4'')) =
      Inr (\<lambda>t. contains_ci (title t) ''4'' \<or> contains_ci (description t) ''4'' \<or> price t = 4)"
    using search_query_show_nat [of 4] by (simp add: show_nat_small)
  show ?thesis using c nc s by (simp add: lamp_fields)
qed

section \<open>Witnesses\<close>





theorem listing_bad_regex_500_witness:
  "q_searchText req_open_paren = Some ''('' \<and> compile_regex ''('' = Inl Rx_invalid \<and>
   build_date_query (q_month req_open_paren) = Inr [] \<and>
   transactions_handler example_store req_open_paren = Server_error"
proof -
  have h: "q_searchText req_open_paren = Some ''(''" "compile_regex ''('' = Inl Rx_invalid"
    "build_date_query (q_month req_open_paren) = Inr []"
    by (simp_all add: req_open_paren_def compile_regex_def no_month_query)
  show ?thesis by (intro conjI h listing_bad_regex_500 [OF h])
qed

theorem listing_page_below_one_500_witness:
  "plain_search (q_searchText req_page0) \<and> build_date_query (q_month req_page0) = Inr [] \<and>
   reachable example_store \<and> req_page req_page0 < 1 \<and> 1 \<le> req_perPage req_page0 \<and>
   transactions_handler example_store req_page0 = Server_error"
proof -
  have h: "plain_search (q_searchText req_page0)" "build_date_query (q_month req_page0) = Inr []"
    "reachable example_store" "req_page req_page0 < 1" "1 \<le> req_perPage req_page0"
    by (simp_all add: req_page0_def plain_search_def no_month_query example_reachable req_page_def
        req_perPage_def DEFAULT_PER_PAGE_def)
  show ?thesis by (intro conjI h listing_page_below_one_500 [OF h])
qed


theorem statistics_reply_witness:
  "reachable example_store \<and> build_date_query None = Inr [] \<and>
   (\<exists>b. statistics_handler example_store None = Ok b \<and>
        totalSaleAmount b = sum_list (map price (month_matches example_store None)) \<and>
        totalSoldItems b = length (filter sold (month_matches example_store None)) \<and>
        totalNotSoldItems b = length (filter (\<lambda>t. \<not> sold t) (month_matches example_store None)) \<and>
        totalSoldItems b + totalNotSoldItems b = length (month_matches example_store None))"
  by (intro conjI example_reachable(1) no_month_query statistics_reply [OF example_reachable(1) no_month_query])

theorem barchart_reply_witness:
  "reachable example_store \<and> build_date_query None = Inr [] \<and>
   (\<exists>bars. barchart_handler example_store None = Ok bars \<and>
        map bar_range bars =
          [''0-100'', ''101-200'', ''201-300'', ''301-400'', ''401-500'',
           ''501-600'', ''601-700'', ''701-800'', ''801-900'', ''901-above''] \<and>
        map bar_count bars =
          map (\<lambda>r. length (filter (\<lambda>t. in_bucket r (price t)) (month_matches example_store None))) priceRanges)"
  by (intro conjI example_reachable(1) no_month_query barchart_reply [OF example_reachable(1) no_month_query])

theorem barchart_sum_nonneg_witness:
  "reachable example_store \<and> build_date_query None = Inr [] \<and>
   barchart_handler example_store None = Ok example_bars \<and>
   sum_list (map bar_count example_bars) = length (filter (\<lambda>t. 0 \<le> price t) (month_matches example_store None))"
  by (intro conjI example_reachable(1) no_month_query example_barchart
      barchart_sum_nonneg [OF example_reachable(1) no_month_query example_barchart])

theorem bucket_of_price_witness:
  "0 \<le> (201 / 2 :: rat) \<and> filter (\<lambda>r. in_bucket r (201 / 2)) priceRanges = [(0, Some 100)]"
proof -
  have "\<lfloor>201 / 2 :: rat\<rfloor> = 100" by (simp add: floor_eq_iff)
  then show ?thesis using bucket_of_price [of "201 / 2"] by (simp add: spec_bucket_def)
qed

theorem piechart_reply_witness:
  "reachable example_store \<and> build_date_query None = Inr [] \<and>
   (\<exists>slices. piechart_handler example_store None = Ok slices \<and>
      is_grouping (map category (month_matches example_store None))
        (map (\<lambda>s. (pie_category s, pie_count s)) slices) \<and>
      sum_list (map pie_count slices) = length (month_matches example_store None) \<and>
      list_all (\<lambda>s. 0 < pie_count s) slices)"
  by (intro conjI example_reachable(1) no_month_query piechart_reply [OF example_reachable(1) no_month_query])

theorem month_filter_year_independent_witness:
  "valid_civil 2021 3 15 \<and> 0 \<le> (0::int) \<and> (0::int) < ms_per_day \<and>
   dateOfSale (example_txn 1 ''Backpack'' 50 ''bags'' True (millis_of_civil 2021 3 15 0)) = millis_of_civil 2021 3 15 0 \<and>
   (case build_date_query (Some ''March'') of
      Inl e \<Rightarrow> False
    | Inr dq \<Rightarrow> (case query_pred dq of Inl e \<Rightarrow> False
                | Inr P \<Rightarrow> P (example_txn 1 ''Backpack'' 50 ''bags'' True (millis_of_civil 2021 3 15 0))))"
proof -
  have h: "valid_civil 2021 3 15" "0 \<le> (0::int)" "(0::int) < ms_per_day"
    "dateOfSale (example_txn 1 ''Backpack'' 50 ''bags'' True (millis_of_civil 2021 3 15 0)) = millis_of_civil 2021 3 15 0"
    by (simp_all add: valid_civil_def days_in_month_def ms_per_day_def example_txn_def)
  show ?thesis by (intro conjI h month_filter_year_independent [OF h])
qed


theorem app_state_invariant_witness:
  "reach example_store init_state \<and>
   st_filtered init_state = client_filter (st_search init_state) (st_transactions init_state) \<and>
   1 \<le> st_page init_state \<and> st_month init_state \<in> set months \<and> list_all req_ok (st_pending init_state)"
  by (intro conjI reach_init app_state_invariant [OF reach_init])

theorem app_requests_served_witness:
  "reach example_store init_state \<and> reachable example_store \<and>
   list_all (\<lambda>r. case r of
             Req_transactions m p \<Rightarrow> transactions_handler example_store (listing_request m p) \<notin> {Server_error, Unmodelled_input}
           | Req_statistics m \<Rightarrow> (\<exists>b. statistics_handler example_store (Some m) = Ok b)
           | Req_barchart m \<Rightarrow> (\<exists>b. barchart_handler example_store (Some m) = Ok b)
           | Req_piechart m \<Rightarrow> (\<exists>b. piechart_handler example_store (Some m) = Ok b)) (st_pending init_state)"
  by (intro conjI reach_init example_reachable(1) app_requests_served [OF reach_init example_reachable(1)])

theorem empty_page_keeps_table_witness:
  "reachable example_store \<and> 0 < length (st_pending june_state) \<and>
   st_pending june_state ! 0 = Req_transactions ''June'' 1 \<and> ''June'' \<in> set months \<and> 1 \<le> (1::int) \<and>
   int (length (spec_matches example_store None (Some ''June''))) \<le> (1 - 1) * 10 \<and>
   st_transactions (app_step example_store june_state (Deliver 0)) = st_transactions june_state \<and>
   st_filtered (app_step example_store june_state (Deliver 0)) = st_filtered june_state \<and>
   st_totalPages (app_step example_store june_state (Deliver 0)) = st_totalPages june_state"
proof -
  have h: "reachable example_store" "0 < length (st_pending june_state)"
    "st_pending june_state ! 0 = Req_transactions ''June'' 1" "''June'' \<in> set months" "1 \<le> (1::int)"
    "int (length (spec_matches example_store None (Some ''June''))) \<le> (1 - 1) * 10"
    by (simp_all add: example_reachable june_state_def month_in_months example_month_matches)
  show ?thesis by (intro conjI h empty_page_keeps_table [OF h])
qed

theorem late_response_applied_witness:
  "0 < length (st_pending april_state) \<and> st_pending april_state ! 0 = Req_transactions ''March'' 1 \<and>
   transactions_handler example_store (listing_request ''March'' 1) =
     Ok \<lparr>transactions = march_records, page_no = 1, per_page = 10, total_pages = Fin 1\<rparr> \<and>
   st_transactions (app_step example_store april_state (Deliver 0)) =
     transactions \<lparr>transactions = march_records, page_no = 1, per_page = 10, total_pages = Fin 1\<rparr> \<and>
   st_totalPages (app_step example_store april_state (Deliver 0)) =
     total_pages \<lparr>transactions = march_records, page_no = 1, per_page = 10, total_pages = Fin 1\<rparr> \<and>
   st_month (app_step example_store april_state (Deliver 0)) = st_month april_state \<and>
   st_page (app_step example_store april_state (Deliver 0)) = st_page april_state"
proof -
  have h: "0 < length (st_pending april_state)" "st_pending april_state ! 0 = Req_transactions ''March'' 1"
    "transactions_handler example_store (listing_request ''March'' 1) =
       Ok \<lparr>transactions = march_records, page_no = 1, per_page = 10, total_pages = Fin 1\<rparr>"
    by (simp_all add: april_state_def example_listing_replies)
  show ?thesis by (intro conjI h late_response_applied [OF h])
qed



theorem handlers_unreachable_witness:
  "\<not> reachable offline_store \<and> build_date_query (Some ''March'') = Inr [(K_expr, Month_eq 3)] \<and>
   q_month req_march_p2 = Some ''March'' \<and>
   transactions_handler offline_store req_march_p2 = Server_error \<and>
   statistics_handler offline_store (Some ''March'') = Server_error \<and>
   barchart_handler offline_store (Some ''March'') = Server_error \<and>
   piechart_handler offline_store (Some ''March'') = Server_error"
proof -
  have h: "\<not> reachable offline_store" "build_date_query (Some ''March'') = Inr [(K_expr, Month_eq 3)]"
    "q_month req_march_p2 = Some ''March''"
    by (simp_all add: example_reachable march_query req_march_p2_def)
  show ?thesis by (intro conjI h handlers_unreachable [OF h])
qed

theorem listing_reply_wellformed_witness:
  "transactions_handler example_store req_march_p2 =
     Ok \<lparr>transactions = [example_txn 2 ''Jacket'' 150 ''clothing'' False 1646870400000], page_no = 2,
         per_page = 1, total_pages = Fin 2\<rparr> \<and>
   1 \<le> req_perPage req_march_p2 \<and>
   subseq [example_txn 2 ''Jacket'' 150 ''clothing'' False 1646870400000] (docs example_store) \<and>
   [example_txn 2 ''Jacket'' 150 ''clothing'' False 1646870400000] \<noteq> [] \<and>
   length [example_txn 2 ''Jacket'' 150 ''clothing'' False 1646870400000] \<le> nat (req_perPage req_march_p2) \<and>
   (2::int) = req_page req_march_p2 \<and> (1::int) = req_perPage req_march_p2"
proof -
  have ok: "transactions_handler example_store req_march_p2 =
     Ok \<lparr>transactions = [example_txn 2 ''Jacket'' 150 ''clothing'' False 1646870400000], page_no = 2,
         per_page = 1, total_pages = Fin 2\<rparr>"
  proof -
    have p: "plain_search (q_searchText req_march_p2)" "build_date_query (q_month req_march_p2) = Inr [(K_expr, Month_eq 3)]"
      "1 \<le> req_page req_march_p2" "1 \<le> req_perPage req_march_p2"
      by (simp_all add: req_march_p2_def plain_search_def march_query req_page_def req_perPage_def)
    show ?thesis
      using listing_reply [OF p(1,2) example_reachable(1) p(3,4)]
      by (simp add: req_march_p2_def req_page_def req_perPage_def example_month_matches march_records_def
          page_slice_def)
  qed
  have h: "1 \<le> req_perPage req_march_p2" by (simp add: req_march_p2_def req_perPage_def)
  show ?thesis using listing_reply_wellformed [OF ok h] ok h by simp
qed

theorem view_invariant_witness:
  "reach example_store init_state \<and>
   v_rows (render (\<lambda>t. []) init_state) =
     map (render_row (\<lambda>t. []) init_state) (client_filter (st_search init_state) (st_transactions init_state)) \<and>
   (v_prev_disabled (render (\<lambda>t. []) init_state) \<longleftrightarrow> st_page init_state = 1)"
  by (intro conjI reach_init view_invariant [OF reach_init])

theorem barchart_rendered_witness:
  "reachable example_store \<and> 2 < length (st_pending init_state) \<and>
   st_pending init_state ! 2 = Req_barchart ''March'' \<and> ''March'' \<in> set months \<and>
   v_bar_data (render (\<lambda>t. []) (app_step example_store init_state (Deliver 2))) = [1, 1, 0, 0, 0, 0, 0, 0, 0, 0] \<and>
   sum_list (v_bar_data (render (\<lambda>t. []) (app_step example_store init_state (Deliver 2)))) = 2"
proof -
  have mm: "month_matches example_store (Some ''March'') = march_records"
    by (simp add: month_matches_def example_store_def example_txn_def month_spec_def
        month_name_eval calendar_eval march_records_def)
  show ?thesis
    using barchart_rendered [of example_store 2 init_state "''March''" "\<lambda>t. []"]
    by (simp add: example_reachable init_pending month_in_months mm march_records_def example_txn_def
        priceRanges_def in_bucket_Some in_bucket_None)
qed


theorem search_numeric_prefix_witness:
  "ends_number ''abc'' \<and> plain_pattern ''abc'' \<and> ''abc'' \<noteq> [] \<and>
   query_pred (build_search_query (Some (show_nat 42 @ ''abc''))) =
     Inr (\<lambda>x. contains_ci (title x) (show_nat 42 @ ''abc'') \<or> contains_ci (description x) (show_nat 42 @ ''abc'') \<or>
              price x = 42)"
  using search_numeric_prefix [of "''abc''" 42]
  by (simp add: ends_number_def is_digit_def plain_pattern_def regex_meta_def)

end
